theory Spec2Isabelle
  imports Main "HOL-Library.Sublist"
begin

section \<open>The host calendar: ECMAScript Date values\<close>

text \<open>
  The component keeps its reference date in a JavaScript \<open>Date\<close> and moves it with the
  host's setters and the date library's helpers. A \<open>Date\<close> is modelled by its local civil
  fields: the full year, the month index (0 = January), the day of the month and the
  milliseconds elapsed since local midnight. The host's time zone is taken to have a
  fixed offset (no daylight-saving jumps), and time values are taken inside the range a
  \<open>Date\<close> can hold.
\<close>

record Date =
  getFullYear :: int
  getMonth :: int
  getDate :: int
  msInDay :: int

definition msPerDay :: int where
  "msPerDay = 86400000"

definition isLeapYear :: "int \<Rightarrow> bool" where
  "isLeapYear y \<longleftrightarrow> y mod 4 = 0 \<and> (y mod 400 = 0 \<or> y mod 100 \<noteq> 0)"

definition daysInMonth :: "int \<Rightarrow> int \<Rightarrow> int" where
  "daysInMonth y m =
     (if m = 1 then (if isLeapYear y then 29 else 28)
      else if m = 3 \<or> m = 5 \<or> m = 8 \<or> m = 10 then 30
      else 31)"

text \<open>A \<open>Date\<close> the host can hold: every field inside its calendar range.\<close>

definition valid_date :: "Date \<Rightarrow> bool" where
  "valid_date d \<longleftrightarrow>
     0 \<le> getMonth d \<and> getMonth d < 12 \<and>
     1 \<le> getDate d \<and> getDate d \<le> daysInMonth (getFullYear d) (getMonth d) \<and>
     0 \<le> msInDay d \<and> msInDay d < msPerDay"

text \<open>
  ECMA-262, 21.4.1: \<open>DayFromYear\<close>, the day number (days since 1970-01-01) of the first
  day of a year, the day number of the first day of a month, and \<open>MakeDay\<close>, which accepts
  a month index and a day of the month outside their ranges.
\<close>

definition dayFromYear :: "int \<Rightarrow> int" where
  "dayFromYear y =
     365 * (y - 1970) + (y - 1969) div 4 - (y - 1901) div 100 + (y - 1601) div 400"

definition monthOffset :: "int \<Rightarrow> int \<Rightarrow> int" where
  "monthOffset y m =
     (let l = (if isLeapYear y then 1 else 0) in
      if m = 0 then 0
      else if m = 1 then 31
      else if m = 2 then 59 + l
      else if m = 3 then 90 + l
      else if m = 4 then 120 + l
      else if m = 5 then 151 + l
      else if m = 6 then 181 + l
      else if m = 7 then 212 + l
      else if m = 8 then 243 + l
      else if m = 9 then 273 + l
      else if m = 10 then 304 + l
      else 334 + l)"

definition firstDay :: "int \<Rightarrow> int \<Rightarrow> int" where
  "firstDay y m = dayFromYear y + monthOffset y m"

definition makeDay :: "int \<Rightarrow> int \<Rightarrow> int \<Rightarrow> int" where
  "makeDay y m dt =
     (let ym = y + m div 12; mn = m mod 12
      in firstDay ym mn + dt - 1)"

definition dayNumber :: "Date \<Rightarrow> int" where
  "dayNumber d = makeDay (getFullYear d) (getMonth d) (getDate d)"

definition getTime :: "Date \<Rightarrow> int" where
  "getTime d = dayNumber d * msPerDay + msInDay d"

text \<open>\<open>Date.prototype.getDay\<close>: ECMA-262 \<open>WeekDay\<close>, 0 = Sunday; 1970-01-01 was a Thursday.\<close>

definition getDay :: "Date \<Rightarrow> int" where
  "getDay d = (dayNumber d + 4) mod 7"

text \<open>
  Reading the fields back after a setter: a day of the month outside the month rolls into
  the months before or after it, one month at a time.
\<close>

function normDay :: "int \<Rightarrow> int \<Rightarrow> int \<Rightarrow> int \<times> int \<times> int" where
  "normDay y m dt =
     (if dt < 1 then
        normDay (if m = 0 then y - 1 else y) (if m = 0 then 11 else m - 1)
          (dt + daysInMonth (if m = 0 then y - 1 else y) (if m = 0 then 11 else m - 1))
      else if daysInMonth y m < dt then
        normDay (if m = 11 then y + 1 else y) (if m = 11 then 0 else m + 1)
          (dt - daysInMonth y m)
      else (y, m, dt))"
  by pat_completeness auto
termination
  by (relation "measure (\<lambda>(y, m, dt). if dt < 1 then nat (33 - dt) else nat dt)")
     (auto simp: daysInMonth_def)

declare normDay.simps [simp del]

definition dateFromFields :: "int \<Rightarrow> int \<Rightarrow> int \<Rightarrow> int \<Rightarrow> Date" where
  "dateFromFields y m dt ms =
     (case normDay (y + m div 12) (m mod 12) dt of
        (y', m', d') \<Rightarrow> \<lparr>getFullYear = y', getMonth = m', getDate = d', msInDay = ms\<rparr>)"

text \<open>The setters of \<open>Date.prototype\<close> the component and the date library call.\<close>

definition setDate :: "Date \<Rightarrow> int \<Rightarrow> Date" where
  "setDate d dt = dateFromFields (getFullYear d) (getMonth d) dt (msInDay d)"

definition setMonth :: "Date \<Rightarrow> int \<Rightarrow> Date" where
  "setMonth d m = dateFromFields (getFullYear d) m (getDate d) (msInDay d)"

definition setMonth2 :: "Date \<Rightarrow> int \<Rightarrow> int \<Rightarrow> Date" where
  "setMonth2 d m dt = dateFromFields (getFullYear d) m dt (msInDay d)"

definition setFullYear :: "Date \<Rightarrow> int \<Rightarrow> Date" where
  "setFullYear d y = dateFromFields y (getMonth d) (getDate d) (msInDay d)"

definition setFullYear3 :: "Date \<Rightarrow> int \<Rightarrow> int \<Rightarrow> int \<Rightarrow> Date" where
  "setFullYear3 d y m dt = dateFromFields y m dt (msInDay d)"

definition setHours :: "Date \<Rightarrow> int \<Rightarrow> int \<Rightarrow> int \<Rightarrow> int \<Rightarrow> Date" where
  "setHours d h mi s ms =
     (let t = ((h * 60 + mi) * 60 + s) * 1000 + ms
      in dateFromFields (getFullYear d) (getMonth d) (getDate d + t div msPerDay)
           (t mod msPerDay))"

subsection \<open>Calendar arithmetic\<close>

lemma div_succ_int:
  fixes a k :: int
  assumes "0 < k"
  shows "(a + 1) div k = a div k + (if (a + 1) mod k = 0 then 1 else 0)"
proof -
  have a: "a = k * (a div k) + a mod k" by simp
  have r: "0 \<le> a mod k" "a mod k < k" using assms by simp_all
  show ?thesis
  proof (cases "a mod k = k - 1")
    case True
    have "a + 1 = k * (a div k + 1) + 0"
      using a True by (simp add: algebra_simps)
    then have "(a + 1) div k = a div k + 1 \<and> (a + 1) mod k = 0"
      using assms
      by (metis add.right_neutral mod_mult_self4 mod_0 nonzero_mult_div_cancel_left less_irrefl add.commute)
    then show ?thesis by simp
  next
    case False
    with r have lt: "a mod k + 1 < k" by simp
    have e: "a + 1 = k * (a div k) + (a mod k + 1)" using a by simp
    have d: "(a + 1) div k = a div k"
      using lt r assms
      by (metis e add_nonneg_nonneg div_mult_self4 div_pos_pos_trivial zero_le_one less_irrefl add.right_neutral)
    have m: "(a + 1) mod k = a mod k + 1"
      using lt r assms
      by (metis e add_nonneg_nonneg mod_mult_self4 mod_pos_pos_trivial zero_le_one add.commute)
    from d m r show ?thesis by simp
  qed
qed

lemma daysInMonth_bounds: "28 \<le> daysInMonth y m \<and> daysInMonth y m \<le> 31"
  by (simp add: daysInMonth_def)

lemma dayFromYear_Suc:
  "dayFromYear (y + 1) = dayFromYear y + 365 + (if isLeapYear y then 1 else 0)"
proof -
  have a: "(y + 1 - 1969) div 4 = (y - 1969) div 4 + (if y mod 4 = 0 then 1 else 0)"
  proof -
    have "y - 1969 + 1 = y + 4 * (- 492)" by simp
    then have "(y - 1969 + 1) mod 4 = y mod 4" by (simp only: mod_mult_self2)
    then have "(y - 1969 + 1) mod 4 = 0 \<longleftrightarrow> y mod 4 = 0" by simp
    with div_succ_int [of 4 "y - 1969"] show ?thesis by (simp add: algebra_simps)
  qed
  have b: "(y + 1 - 1901) div 100 = (y - 1901) div 100 + (if y mod 100 = 0 then 1 else 0)"
  proof -
    have "y - 1901 + 1 = y + 100 * (- 19)" by simp
    then have "(y - 1901 + 1) mod 100 = y mod 100" by (simp only: mod_mult_self2)
    then have "(y - 1901 + 1) mod 100 = 0 \<longleftrightarrow> y mod 100 = 0" by simp
    with div_succ_int [of 100 "y - 1901"] show ?thesis by (simp add: algebra_simps)
  qed
  have c: "(y + 1 - 1601) div 400 = (y - 1601) div 400 + (if y mod 400 = 0 then 1 else 0)"
  proof -
    have "y - 1601 + 1 = y + 400 * (- 4)" by simp
    then have "(y - 1601 + 1) mod 400 = y mod 400" by (simp only: mod_mult_self2)
    then have "(y - 1601 + 1) mod 400 = 0 \<longleftrightarrow> y mod 400 = 0" by simp
    with div_succ_int [of 400 "y - 1601"] show ?thesis by (simp add: algebra_simps)
  qed
  have d: "y mod 400 = 0 \<Longrightarrow> y mod 100 = 0"
    using mod_mod_cancel [of 100 400 y] by simp
  have e: "y mod 100 = 0 \<Longrightarrow> y mod 4 = 0"
    using mod_mod_cancel [of 4 100 y] by simp
  define l4 :: int where "l4 = (if y mod 4 = 0 then 1 else 0)"
  define l100 :: int where "l100 = (if y mod 100 = 0 then 1 else 0)"
  define l400 :: int where "l400 = (if y mod 400 = 0 then 1 else 0)"
  have leap: "l4 - l100 + l400 = (if isLeapYear y then 1 else 0)"
  proof (cases "y mod 4 = 0")
    case False
    with d e show ?thesis by (auto simp: l4_def l100_def l400_def isLeapYear_def)
  next
    case y4: True
    show ?thesis
    proof (cases "y mod 100 = 0")
      case False
      with y4 d show ?thesis by (auto simp: l4_def l100_def l400_def isLeapYear_def)
    next
      case True
      with y4 show ?thesis by (simp add: l4_def l100_def l400_def isLeapYear_def)
    qed
  qed
  have "dayFromYear (y + 1) =
          365 * (y + 1 - 1970) + (y + 1 - 1969) div 4 - (y + 1 - 1901) div 100
            + (y + 1 - 1601) div 400"
    by (simp only: dayFromYear_def)
  also have "\<dots> = dayFromYear y + 365 + (l4 - l100 + l400)"
    by (simp only: a b c dayFromYear_def l4_def [symmetric] l100_def [symmetric]
          l400_def [symmetric]) simp
  finally show ?thesis by (simp only: leap)
qed

lemma month_cases:
  fixes m :: int
  assumes "0 \<le> m" "m < 12"
  shows "m = 0 \<or> m = 1 \<or> m = 2 \<or> m = 3 \<or> m = 4 \<or> m = 5 \<or> m = 6 \<or> m = 7 \<or> m = 8 \<or> m = 9 \<or>
         m = 10 \<or> m = 11"
  using assms by arith

lemma monthOffset_Suc:
  assumes "0 \<le> m" "m < 11"
  shows "monthOffset y (m + 1) = monthOffset y m + daysInMonth y m"
proof -
  from assms have "m = 0 \<or> m = 1 \<or> m = 2 \<or> m = 3 \<or> m = 4 \<or> m = 5 \<or> m = 6 \<or> m = 7 \<or> m = 8 \<or> m = 9 \<or>
         m = 10" by arith
  then show ?thesis
    by (elim disjE) (simp_all add: monthOffset_def daysInMonth_def)
qed

lemma monthOffset_last: "monthOffset y 11 + daysInMonth y 11 = 365 + (if isLeapYear y then 1 else 0)"
  by (simp add: monthOffset_def daysInMonth_def)

lemma monthOffset_0: "monthOffset y 0 = 0"
  by (simp add: monthOffset_def)

lemma firstDay_next:
  assumes "0 \<le> m" "m < 12"
  shows "firstDay (if m = 11 then y + 1 else y) (if m = 11 then 0 else m + 1) =
         firstDay y m + daysInMonth y m"
proof (cases "m = 11")
  case True
  then show ?thesis
    using dayFromYear_Suc [of y] monthOffset_last [of y]
    by (simp add: firstDay_def monthOffset_0)
next
  case False
  with assms have "m < 11" by simp
  with assms False show ?thesis
    by (simp add: firstDay_def monthOffset_Suc)
qed

lemma firstDay_prev:
  assumes "0 \<le> m" "m < 12"
  shows "firstDay (if m = 0 then y - 1 else y) (if m = 0 then 11 else m - 1)
           + daysInMonth (if m = 0 then y - 1 else y) (if m = 0 then 11 else m - 1) =
         firstDay y m"
proof (cases "m = 0")
  case True
  then show ?thesis
    using firstDay_next [of 11 "y - 1"] by simp
next
  case False
  with assms show ?thesis
    using firstDay_next [of "m - 1" y] by simp
qed

lemma normDay_correct:
  "0 \<le> m \<Longrightarrow> m < 12 \<Longrightarrow> normDay y m dt = (y', m', d') \<Longrightarrow>
     0 \<le> m' \<and> m' < 12 \<and> 1 \<le> d' \<and> d' \<le> daysInMonth y' m' \<and>
     firstDay y' m' + d' = firstDay y m + dt"
proof (induction y m dt rule: normDay.induct)
  case (1 y m dt)
  show ?case
  proof (cases "dt < 1")
    case True
    let ?y = "if m = 0 then y - 1 else y" and ?m = "if m = 0 then 11 else m - 1"
    from True "1.prems" have eq: "normDay ?y ?m (dt + daysInMonth ?y ?m) = (y', m', d')"
      by (subst (asm) normDay.simps) simp
    have rng: "0 \<le> ?m" "?m < 12" using "1.prems" by auto
    from "1.IH"(1) [OF True rng eq] firstDay_prev [OF "1.prems"(1,2), of y]
    show ?thesis by simp
  next
    case False
    show ?thesis
    proof (cases "daysInMonth y m < dt")
      case True
      let ?y = "if m = 11 then y + 1 else y" and ?m = "if m = 11 then 0 else m + 1"
      from True False "1.prems" have eq: "normDay ?y ?m (dt - daysInMonth y m) = (y', m', d')"
        by (subst (asm) normDay.simps) simp
      have rng: "0 \<le> ?m" "?m < 12" using "1.prems" by auto
      from "1.IH"(2) [OF False True rng eq] firstDay_next [OF "1.prems"(1,2), of y]
      show ?thesis by simp
    next
      case inr: False
      from inr False "1.prems" have "(y, m, dt) = (y', m', d')"
        by (subst (asm) normDay.simps) simp
      with inr False "1.prems" show ?thesis by auto
    qed
  qed
qed

lemma normDay_in_range:
  "1 \<le> dt \<Longrightarrow> dt \<le> daysInMonth y m \<Longrightarrow> normDay y m dt = (y, m, dt)"
  by (subst normDay.simps) simp

lemma makeDay_mod: "makeDay (y + m div 12) (m mod 12) dt = makeDay y m dt"
  by (simp add: makeDay_def)

lemma dateFromFields_valid:
  assumes "0 \<le> ms" "ms < msPerDay"
  shows "valid_date (dateFromFields y m dt ms)"
proof -
  obtain y' m' d' where n: "normDay (y + m div 12) (m mod 12) dt = (y', m', d')"
    by (cases "normDay (y + m div 12) (m mod 12) dt") auto
  have "0 \<le> m mod 12" "m mod 12 < 12" by simp_all
  from normDay_correct [OF this n] assms n show ?thesis
    by (simp add: dateFromFields_def valid_date_def)
qed

lemma dayNumber_dateFromFields: "dayNumber (dateFromFields y m dt ms) = makeDay y m dt"
proof -
  obtain y' m' d' where n: "normDay (y + m div 12) (m mod 12) dt = (y', m', d')"
    by (cases "normDay (y + m div 12) (m mod 12) dt") auto
  have r: "0 \<le> m mod 12" "m mod 12 < 12" by simp_all
  from normDay_correct [OF r n] have
    "0 \<le> m'" "m' < 12" "firstDay y' m' + d' = firstDay (y + m div 12) (m mod 12) + dt"
    by simp_all
  then show ?thesis
    using n by (simp add: dateFromFields_def dayNumber_def makeDay_def)
qed

lemma msInDay_dateFromFields: "msInDay (dateFromFields y m dt ms) = ms"
  by (simp add: dateFromFields_def split: prod.splits)

lemma dateFromFields_in_range:
  assumes "0 \<le> m" "m < 12" "1 \<le> dt" "dt \<le> daysInMonth y m"
  shows "dateFromFields y m dt ms = \<lparr>getFullYear = y, getMonth = m, getDate = dt, msInDay = ms\<rparr>"
  using assms by (simp add: dateFromFields_def normDay_in_range)

section \<open>The date library (date-fns)\<close>

text \<open>
  The helpers the component imports from the date library, each written after the
  library's implementation in terms of the host's setters: \<open>startOfMonth\<close> sets the day to 1
  and the time to midnight; \<open>endOfMonth\<close> moves to day 0 of the next month and sets the time
  to 23:59:59.999; \<open>addMonths\<close> finds the last day of the target month first and keeps the
  day of the month only if it is before that day.
\<close>

definition startOfMonth :: "Date \<Rightarrow> Date" where
  "startOfMonth d = setHours (setDate d 1) 0 0 0 0"

definition endOfMonth :: "Date \<Rightarrow> Date" where
  "endOfMonth d =
     setHours (setFullYear3 d (getFullYear d) (getMonth d + 1) 0) 23 59 59 999"

definition addMonths :: "Date \<Rightarrow> int \<Rightarrow> Date" where
  "addMonths d amount =
     (if amount = 0 then d
      else
        let dayOfMonth = getDate d;
            endOfDesiredMonth = setMonth2 d (getMonth d + amount + 1) 0;
            daysInMonth' = getDate endOfDesiredMonth
        in if dayOfMonth \<ge> daysInMonth' then endOfDesiredMonth
           else setFullYear3 d (getFullYear endOfDesiredMonth) (getMonth endOfDesiredMonth)
                  dayOfMonth)"

definition subMonths :: "Date \<Rightarrow> int \<Rightarrow> Date" where
  "subMonths d amount = addMonths d (- amount)"

text \<open>
  \<open>eachDayOfInterval\<close>: the library walks from the start of the first day, one
  \<open>setDate(getDate() + 1)\<close> at a time, while the walking date's time value does not
  pass the interval's end; an interval given backwards is walked the same way and the
  result reversed.
\<close>

lemma dayNumber_setHours0: "dayNumber (setHours d 0 0 0 0) = dayNumber d"
  by (simp add: setHours_def dayNumber_dateFromFields) (simp add: dayNumber_def)

lemma msInDay_setHours0: "msInDay (setHours d 0 0 0 0) = 0"
  by (simp add: setHours_def msInDay_dateFromFields)

lemma dayNumber_setDate_succ: "dayNumber (setDate d (getDate d + 1)) = dayNumber d + 1"
  by (simp add: setDate_def dayNumber_dateFromFields) (simp add: dayNumber_def makeDay_def)

function eachDay_loop :: "Date \<Rightarrow> int \<Rightarrow> Date list \<Rightarrow> Date list" where
  "eachDay_loop date endTime dates =
     (if getTime date \<le> endTime then
        eachDay_loop (setHours (setDate date (getDate date + 1)) 0 0 0 0) endTime
          (dates @ [date])
      else dates)"
  by pat_completeness auto
termination
proof (relation "measures [\<lambda>(date, endTime, dates). if msInDay date = 0 then 0 else 1,
                           \<lambda>(date, endTime, dates). nat (endTime + 1 - dayNumber date * msPerDay)]")
  show "wf (measures [\<lambda>(date, endTime, dates). if msInDay date = 0 then 0 else 1,
                      \<lambda>(date, endTime, dates). nat (endTime + 1 - dayNumber date * msPerDay)])"
    by simp
next
  fix date :: Date and endTime :: int and dates :: "Date list"
  assume le: "getTime date \<le> endTime"
  let ?next = "setHours (setDate date (getDate date + 1)) 0 0 0 0"
  have ms: "msInDay ?next = 0" by (rule msInDay_setHours0)
  have dn: "dayNumber ?next = dayNumber date + 1"
    by (simp add: dayNumber_setHours0 dayNumber_setDate_succ)
  show "((?next, endTime, dates @ [date]), (date, endTime, dates))
          \<in> measures [\<lambda>(date, endTime, dates). if msInDay date = 0 then 0 else 1,
                       \<lambda>(date, endTime, dates). nat (endTime + 1 - dayNumber date * msPerDay)]"
  proof (cases "msInDay date = 0")
    case True
    with le have "dayNumber date * msPerDay \<le> endTime" by (simp add: getTime_def)
    then have "nat (endTime + 1 - (dayNumber date + 1) * msPerDay)
                 < nat (endTime + 1 - dayNumber date * msPerDay)"
      by (simp add: msPerDay_def algebra_simps)
    with True ms dn show ?thesis by simp
  next
    case False
    with ms show ?thesis by simp
  qed
qed

declare eachDay_loop.simps [simp del]

definition eachDayOfInterval :: "Date \<Rightarrow> Date \<Rightarrow> Date list" where
  "eachDayOfInterval start end' =
     (let reversed = (getTime start > getTime end');
          endTime = (if reversed then getTime start else getTime end');
          date = setHours (if reversed then end' else start) 0 0 0 0;
          dates = eachDay_loop date endTime []
      in if reversed then rev dates else dates)"

definition isSameDay :: "Date \<Rightarrow> Date \<Rightarrow> bool" where
  "isSameDay a b \<longleftrightarrow>
     getFullYear a = getFullYear b \<and> getMonth a = getMonth b \<and> getDate a = getDate b"

definition isSameMonth :: "Date \<Rightarrow> Date \<Rightarrow> bool" where
  "isSameMonth a b \<longleftrightarrow> getFullYear a = getFullYear b \<and> getMonth a = getMonth b"

definition isWeekend :: "Date \<Rightarrow> bool" where
  "isWeekend d \<longleftrightarrow> getDay d = 0 \<or> getDay d = 6"

section \<open>The calendar component: grid and navigation\<close>

text \<open>Lines 113-123 of the component: the days of the displayed month and the weekday of its first day.\<close>

definition getDaysInMonth :: "Date \<Rightarrow> Date list" where
  "getDaysInMonth currentDate =
     (let start = startOfMonth currentDate;
          end' = endOfMonth currentDate
      in eachDayOfInterval start end')"

definition getFirstDayOfMonth :: "Date \<Rightarrow> int" where
  "getFirstDayOfMonth currentDate = getDay (startOfMonth currentDate)"

text \<open>
  Lines 64-68: the month names of the dropdown, \<open>format(new Date(2000, i, 1), "MMMM")\<close>
  for \<open>i\<close> from 0 to 11 in the library's default (English) locale.
\<close>

definition months :: "string list" where
  "months = [''January'', ''February'', ''March'', ''April'', ''May'', ''June'', ''July'',
             ''August'', ''September'', ''October'', ''November'', ''December'']"

text \<open>\<open>Array.prototype.findIndex\<close>: the index of the first match, \<open>-1\<close> when there is none.\<close>

fun findIndex :: "('a \<Rightarrow> bool) \<Rightarrow> 'a list \<Rightarrow> int" where
  "findIndex P [] = - 1"
| "findIndex P (x # xs) =
     (if P x then 0 else (let r = findIndex P xs in if r < 0 then - 1 else r + 1))"

text \<open>
  Strings are sequences of code units; a \<open>char\<close> stands for a code unit below 256. The
  white space and line terminators of ECMA-262 in that range: TAB, LF, VT, FF, CR, SP and
  NBSP.
\<close>

definition isWhiteSpace :: "char \<Rightarrow> bool" where
  "isWhiteSpace c \<longleftrightarrow> (of_char c :: nat) \<in> {9, 10, 11, 12, 13, 32, 160}"

definition digitValue :: "char \<Rightarrow> nat option" where
  "digitValue c =
     (let n = (of_char c :: nat) in
      if 48 \<le> n \<and> n \<le> 57 then Some (n - 48)
      else if 97 \<le> n \<and> n \<le> 122 then Some (n - 87)
      else if 65 \<le> n \<and> n \<le> 90 then Some (n - 55)
      else None)"

definition isRadixDigit :: "nat \<Rightarrow> char \<Rightarrow> bool" where
  "isRadixDigit r c = (case digitValue c of None \<Rightarrow> False | Some v \<Rightarrow> v < r)"

definition digitsValue :: "nat \<Rightarrow> string \<Rightarrow> nat" where
  "digitsValue r z = foldl (\<lambda>acc c. acc * r + the (digitValue c)) 0 z"

text \<open>
  \<open>Number.parseInt\<close> with no radix argument (ECMA-262, 19.2.5): leading white space is
  skipped, a sign is read, a \<open>0x\<close> prefix selects radix 16, and the longest prefix of
  digits is the value; \<open>None\<close> is \<open>NaN\<close>. The value is kept exact (a \<open>Number\<close> rounds beyond
  \<open>2^53\<close>).
\<close>

definition parseInt :: "string \<Rightarrow> int option" where
  "parseInt inputString =
     (let s = dropWhile isWhiteSpace inputString;
          sign = (if s \<noteq> [] \<and> hd s = CHR ''-'' then - 1 else 1 :: int);
          s1 = (if s \<noteq> [] \<and> (hd s = CHR ''+'' \<or> hd s = CHR ''-'') then tl s else s);
          hex = (take 2 s1 = ''0x'' \<or> take 2 s1 = ''0X'');
          r = (if hex then 16 else 10 :: nat);
          s2 = (if hex then drop 2 s1 else s1);
          z = takeWhile (isRadixDigit r) s2
      in if z = [] then None else Some (sign * int (digitsValue r z)))"

text \<open>Lines 83-111: the navigation handlers, as the value each passes to \<open>setCurrentDate\<close>.\<close>

definition prevMonth :: "Date \<Rightarrow> Date" where
  "prevMonth currentDate = subMonths currentDate 1"

definition nextMonth :: "Date \<Rightarrow> Date" where
  "nextMonth currentDate = addMonths currentDate 1"

definition goToToday :: "Date \<Rightarrow> Date" where
  "goToToday now = now"

text \<open>
  \<open>setFullYear(NaN)\<close> leaves an invalid \<open>Date\<close>: the result \<open>None\<close>.
\<close>

definition handleYearChange :: "string \<Rightarrow> Date \<Rightarrow> Date option" where
  "handleYearChange year currentDate =
     (let newDate = currentDate
      in case parseInt year of
           None \<Rightarrow> None
         | Some y \<Rightarrow> Some (setFullYear newDate y))"

definition handleMonthChange :: "string \<Rightarrow> Date \<Rightarrow> Date" where
  "handleMonthChange month currentDate =
     (let monthIndex = findIndex (\<lambda>m. m = month) months;
          newDate = currentDate
      in setMonth newDate monthIndex)"

text \<open>The date at local midnight of day \<open>k\<close> of month \<open>m\<close> (0 = January) of year \<open>y\<close>.\<close>

definition monthDay :: "int \<Rightarrow> int \<Rightarrow> int \<Rightarrow> Date" where
  "monthDay y m k = \<lparr>getFullYear = y, getMonth = m, getDate = k, msInDay = 0\<rparr>"

section \<open>The month grid\<close>

lemma startOfMonth_valid:
  assumes "valid_date d"
  shows "startOfMonth d = monthDay (getFullYear d) (getMonth d) 1"
proof -
  from assms have m: "0 \<le> getMonth d" "getMonth d < 12" by (simp_all add: valid_date_def)
  have one: "(1::int) \<le> daysInMonth (getFullYear d) (getMonth d)"
    using daysInMonth_bounds [of "getFullYear d" "getMonth d"] by simp
  have "setDate d 1 = \<lparr>getFullYear = getFullYear d, getMonth = getMonth d, getDate = 1,
                         msInDay = msInDay d\<rparr>"
    using m one by (simp add: setDate_def dateFromFields_in_range)
  then show ?thesis
    using m one by (simp add: startOfMonth_def setHours_def dateFromFields_in_range monthDay_def)
qed

lemma normDay_zero:
  assumes "0 \<le> m" "m < 12"
  shows "normDay (y + (m + 1) div 12) ((m + 1) mod 12) 0 = (y, m, daysInMonth y m)"
proof -
  have b: "1 \<le> daysInMonth y m" using daysInMonth_bounds [of y m] by simp
  show ?thesis
  proof (cases "m = 11")
    case True
    then show ?thesis using b
      by (subst normDay.simps) (simp add: normDay_in_range)
  next
    case False
    with assms have "(m + 1) div 12 = 0" "(m + 1) mod 12 = m + 1" by simp_all
    with assms b show ?thesis
      by (subst normDay.simps) (simp add: normDay_in_range)
  qed
qed

lemma endOfMonth_valid:
  assumes "valid_date d"
  shows "endOfMonth d = \<lparr>getFullYear = getFullYear d, getMonth = getMonth d,
            getDate = daysInMonth (getFullYear d) (getMonth d), msInDay = 86399999\<rparr>"
proof -
  from assms have m: "0 \<le> getMonth d" "getMonth d < 12" by (simp_all add: valid_date_def)
  have b: "1 \<le> daysInMonth (getFullYear d) (getMonth d)"
    using daysInMonth_bounds [of "getFullYear d" "getMonth d"] by simp
  have "setFullYear3 d (getFullYear d) (getMonth d + 1) 0 =
          \<lparr>getFullYear = getFullYear d, getMonth = getMonth d,
           getDate = daysInMonth (getFullYear d) (getMonth d), msInDay = msInDay d\<rparr>"
    using m by (simp add: setFullYear3_def dateFromFields_def normDay_zero)
  then show ?thesis
    using m b by (simp add: endOfMonth_def setHours_def msPerDay_def dateFromFields_in_range)
qed

lemma getTime_monthDay:
  "0 \<le> m \<Longrightarrow> m < 12 \<Longrightarrow> getTime (monthDay y m k) = (firstDay y m + k - 1) * msPerDay"
  by (simp add: getTime_def dayNumber_def makeDay_def monthDay_def)

lemma eachDay_loop_month:
  assumes m: "0 \<le> m" "m < 12"
    and k: "1 \<le> k" "k \<le> daysInMonth y m"
    and E: "E = (firstDay y m + daysInMonth y m - 1) * msPerDay + 86399999"
  shows "eachDay_loop (monthDay y m k) E acc = acc @ map (monthDay y m) [k..daysInMonth y m]"
  using k
proof (induction "nat (daysInMonth y m - k)" arbitrary: k acc)
  case 0
  then have keq: "k = daysInMonth y m" by simp
  let ?next = "setHours (setDate (monthDay y m k) (getDate (monthDay y m k) + 1)) 0 0 0 0"
  have le: "getTime (monthDay y m k) \<le> E"
    using m keq by (simp add: getTime_monthDay E msPerDay_def)
  have "dayNumber ?next = dayNumber (monthDay y m k) + 1"
    by (simp add: dayNumber_setHours0 dayNumber_setDate_succ)
  also have "\<dots> = firstDay y m + daysInMonth y m"
    using m keq by (simp add: dayNumber_def makeDay_def monthDay_def)
  finally have "getTime ?next = (firstDay y m + daysInMonth y m) * msPerDay"
    by (simp add: getTime_def msInDay_setHours0)
  then have gt: "\<not> getTime ?next \<le> E"
    by (simp add: E msPerDay_def algebra_simps)
  have "eachDay_loop (monthDay y m k) E acc = eachDay_loop ?next E (acc @ [monthDay y m k])"
    using le by (subst eachDay_loop.simps) simp
  also have "\<dots> = acc @ [monthDay y m k]"
    using gt by (subst eachDay_loop.simps) simp
  finally show ?case using keq by simp
next
  case (Suc n)
  then have klt: "k < daysInMonth y m" by linarith
  let ?next = "setHours (setDate (monthDay y m k) (getDate (monthDay y m k) + 1)) 0 0 0 0"
  have le: "getTime (monthDay y m k) \<le> E"
    using m klt by (simp add: getTime_monthDay E msPerDay_def)
  have sd: "setDate (monthDay y m k) (getDate (monthDay y m k) + 1) = monthDay y m (k + 1)"
    using m klt Suc.prems by (simp add: setDate_def monthDay_def dateFromFields_in_range)
  have nx: "?next = monthDay y m (k + 1)"
    unfolding sd using m klt Suc.prems
    by (simp add: setHours_def monthDay_def dateFromFields_in_range)
  have n: "n = nat (daysInMonth y m - (k + 1))" using Suc.hyps(2) by linarith
  have "eachDay_loop (monthDay y m k) E acc = eachDay_loop ?next E (acc @ [monthDay y m k])"
    using le by (subst eachDay_loop.simps) simp
  also have "\<dots> = (acc @ [monthDay y m k]) @ map (monthDay y m) [k + 1..daysInMonth y m]"
    unfolding nx using Suc.hyps(1) [OF n] Suc.prems klt by simp
  also have "\<dots> = acc @ map (monthDay y m) [k..daysInMonth y m]"
    using klt by (simp add: upto_rec1)
  finally show ?case .
qed

lemma getDaysInMonth_valid:
  assumes "valid_date d"
  shows "getDaysInMonth d =
           map (monthDay (getFullYear d) (getMonth d))
             [1..daysInMonth (getFullYear d) (getMonth d)]"
proof -
  let ?y = "getFullYear d" and ?m = "getMonth d"
  from assms have m: "0 \<le> ?m" "?m < 12" by (simp_all add: valid_date_def)
  have b: "1 \<le> daysInMonth ?y ?m" using daysInMonth_bounds [of ?y ?m] by simp
  let ?E = "(firstDay ?y ?m + daysInMonth ?y ?m - 1) * msPerDay + 86399999"
  have te: "getTime (endOfMonth d) = ?E"
    using m by (simp add: endOfMonth_valid [OF assms] getTime_def dayNumber_def makeDay_def)
  have ts: "getTime (startOfMonth d) = firstDay ?y ?m * msPerDay"
    using m by (simp add: startOfMonth_valid [OF assms] getTime_monthDay)
  have nrev: "\<not> getTime (startOfMonth d) > getTime (endOfMonth d)"
    using b by (simp add: te ts msPerDay_def algebra_simps)
  have s0: "setHours (startOfMonth d) 0 0 0 0 = monthDay ?y ?m 1"
    using m b
    by (simp add: startOfMonth_valid [OF assms] setHours_def monthDay_def dateFromFields_in_range)
  show ?thesis
    using nrev eachDay_loop_month [OF m _ b refl, where acc = "[]"]
    by (simp add: getDaysInMonth_def eachDayOfInterval_def Let_def s0 te)
qed

lemma filter_eq_upto:
  fixes k :: int
  assumes "i \<le> k" "k \<le> j"
  shows "filter (\<lambda>x. x = k) [i..j] = [k]"
proof -
  have "[i..j] = [i..k - 1] @ k # [k + 1..j]"
    using assms by (rule upto_split3)
  then show ?thesis by (simp add: filter_empty_conv)
qed

text \<open>
  Claim C1. For every reference date \<open>d\<close>, \<open>getDaysInMonth\<close> is the ascending sequence of
  every calendar day of the month containing \<open>d\<close>, from day 1 to the month's last day,
  each at local midnight; the calendar day of \<open>d\<close> occurs in it exactly once; every element
  lies in the month and year of \<open>d\<close>; its length is the month's length under the leap-year
  rule, between 28 and 31. For the reference date 2024-02-01 it has 29 entries, the last
  being 2024-02-29.
\<close>

theorem getDaysInMonth_month_days:
  assumes "valid_date d"
  shows "getDaysInMonth d =
           map (monthDay (getFullYear d) (getMonth d))
             [1..daysInMonth (getFullYear d) (getMonth d)]
         \<and> sorted_wrt (\<lambda>a b. getTime a < getTime b) (getDaysInMonth d)
         \<and> length (filter (isSameDay d) (getDaysInMonth d)) = 1
         \<and> list_all (\<lambda>x. isSameMonth x d) (getDaysInMonth d)
         \<and> int (length (getDaysInMonth d)) = daysInMonth (getFullYear d) (getMonth d)
         \<and> 28 \<le> length (getDaysInMonth d) \<and> length (getDaysInMonth d) \<le> 31
         \<and> length (getDaysInMonth \<lparr>getFullYear = 2024, getMonth = 1, getDate = 1, msInDay = 0\<rparr>) = 29
         \<and> last (getDaysInMonth \<lparr>getFullYear = 2024, getMonth = 1, getDate = 1, msInDay = 0\<rparr>)
             = \<lparr>getFullYear = 2024, getMonth = 1, getDate = 29, msInDay = 0\<rparr>"
proof -
  let ?y = "getFullYear d" and ?m = "getMonth d"
  let ?n = "daysInMonth ?y ?m"
  from assms have m: "0 \<le> ?m" "?m < 12" and k: "1 \<le> getDate d" "getDate d \<le> ?n"
    by (simp_all add: valid_date_def)
  have b: "28 \<le> ?n" "?n \<le> 31" using daysInMonth_bounds [of ?y ?m] by simp_all
  have days: "getDaysInMonth d = map (monthDay ?y ?m) [1..?n]"
    by (rule getDaysInMonth_valid [OF assms])
  have asc: "sorted_wrt (\<lambda>a b. getTime a < getTime b) (getDaysInMonth d)"
  proof -
    have "sorted_wrt (\<lambda>i j. getTime (monthDay ?y ?m i) < getTime (monthDay ?y ?m j)) [1..?n]"
      using m by (simp add: getTime_monthDay msPerDay_def sorted_wrt_upto)
    then show ?thesis by (simp add: days sorted_wrt_map)
  qed
  have once: "length (filter (isSameDay d) (getDaysInMonth d)) = 1"
  proof -
    have "filter (isSameDay d) (getDaysInMonth d) =
            map (monthDay ?y ?m) (filter (\<lambda>x. x = getDate d) [1..?n])"
      by (simp add: days filter_map comp_def isSameDay_def monthDay_def eq_commute)
    then show ?thesis using k by (simp add: filter_eq_upto)
  qed
  have same: "list_all (\<lambda>x. isSameMonth x d) (getDaysInMonth d)"
    by (simp add: days list_all_iff isSameMonth_def monthDay_def)
  have len: "int (length (getDaysInMonth d)) = ?n"
    using b by (simp add: days)
  let ?feb = "\<lparr>getFullYear = 2024, getMonth = 1, getDate = 1, msInDay = 0\<rparr>"
  have vf: "valid_date ?feb"
    by (simp add: valid_date_def daysInMonth_def isLeapYear_def msPerDay_def)
  have feb: "getDaysInMonth ?feb = map (monthDay 2024 1) [1..29]"
    using getDaysInMonth_valid [OF vf] by (simp add: daysInMonth_def isLeapYear_def)
  have ex: "length (getDaysInMonth ?feb) = 29"
       "last (getDaysInMonth ?feb) = \<lparr>getFullYear = 2024, getMonth = 1, getDate = 29, msInDay = 0\<rparr>"
    by (simp_all add: feb last_map monthDay_def upto_rec2)
  have lb: "28 \<le> length (getDaysInMonth d)" and ub: "length (getDaysInMonth d) \<le> 31"
    using len b by linarith+
  show ?thesis
    by (intro conjI days asc once same len lb ub ex)
qed

theorem getDaysInMonth_month_days_witness:
  "valid_date \<lparr>getFullYear = 2023, getMonth = 3, getDate = 17, msInDay = 45000000\<rparr>
   \<and> getDaysInMonth \<lparr>getFullYear = 2023, getMonth = 3, getDate = 17, msInDay = 45000000\<rparr>
       = map (monthDay 2023 3) [1..30]
   \<and> length (filter (isSameDay \<lparr>getFullYear = 2023, getMonth = 3, getDate = 17, msInDay = 45000000\<rparr>)
        (getDaysInMonth \<lparr>getFullYear = 2023, getMonth = 3, getDate = 17, msInDay = 45000000\<rparr>)) = 1
   \<and> length (getDaysInMonth \<lparr>getFullYear = 2023, getMonth = 3, getDate = 17, msInDay = 45000000\<rparr>) = 30"
proof -
  let ?d = "\<lparr>getFullYear = 2023, getMonth = 3, getDate = 17, msInDay = 45000000\<rparr>"
  have v: "valid_date ?d"
    by (simp add: valid_date_def daysInMonth_def msPerDay_def)
  have n: "daysInMonth 2023 3 = 30" by (simp add: daysInMonth_def)
  note t = getDaysInMonth_month_days [OF v]
  have a: "getDaysInMonth ?d = map (monthDay 2023 3) [1..30]"
    using t [THEN conjunct1] by (simp only: n select_convs)
  note b = t [THEN conjunct2, THEN conjunct2, THEN conjunct1]
  have c: "length (getDaysInMonth ?d) = 30"
    using t [THEN conjunct2, THEN conjunct2, THEN conjunct2, THEN conjunct2, THEN conjunct1]
    by (simp only: n select_convs)
  show ?thesis
    by (intro conjI v a b c)
qed


text \<open>
  Claim C5. For every reference date \<open>d\<close>, \<open>getFirstDayOfMonth\<close> is an integer from 0 to 6
  and equals the weekday index (0 = Sunday) of the first element of \<open>getDaysInMonth\<close>.
\<close>

theorem getFirstDayOfMonth_offset:
  assumes "valid_date d"
  shows "0 \<le> getFirstDayOfMonth d \<and> getFirstDayOfMonth d \<le> 6
         \<and> getDaysInMonth d \<noteq> []
         \<and> getFirstDayOfMonth d = getDay (getDaysInMonth d ! 0)"
proof -
  let ?y = "getFullYear d" and ?m = "getMonth d"
  have b: "1 \<le> daysInMonth ?y ?m" using daysInMonth_bounds [of ?y ?m] by simp
  have days: "getDaysInMonth d = monthDay ?y ?m 1 # map (monthDay ?y ?m) [2..daysInMonth ?y ?m]"
    using b by (simp add: getDaysInMonth_valid [OF assms] upto_rec1)
  have r: "0 \<le> getFirstDayOfMonth d" "getFirstDayOfMonth d \<le> 6"
    by (simp_all add: getFirstDayOfMonth_def getDay_def)
  have ne: "getDaysInMonth d \<noteq> []" by (simp add: days)
  have eq: "getFirstDayOfMonth d = getDay (getDaysInMonth d ! 0)"
    by (simp add: days getFirstDayOfMonth_def startOfMonth_valid [OF assms])
  show ?thesis by (intro conjI r ne eq)
qed

theorem getFirstDayOfMonth_offset_witness:
  "valid_date \<lparr>getFullYear = 2024, getMonth = 1, getDate = 15, msInDay = 1000\<rparr>
   \<and> getFirstDayOfMonth \<lparr>getFullYear = 2024, getMonth = 1, getDate = 15, msInDay = 1000\<rparr> = 4
   \<and> getDay (getDaysInMonth \<lparr>getFullYear = 2024, getMonth = 1, getDate = 15, msInDay = 1000\<rparr> ! 0) = 4"
proof -
  let ?d = "\<lparr>getFullYear = 2024, getMonth = 1, getDate = 15, msInDay = 1000\<rparr>"
  have v: "valid_date ?d"
    by (simp add: valid_date_def daysInMonth_def isLeapYear_def msPerDay_def)
  have f: "getFirstDayOfMonth ?d = 4"
    by (simp add: getFirstDayOfMonth_def startOfMonth_valid [OF v] getDay_def dayNumber_def
          makeDay_def firstDay_def dayFromYear_def monthOffset_def monthDay_def)
  have "getDay (getDaysInMonth ?d ! 0) = getFirstDayOfMonth ?d"
    using getFirstDayOfMonth_offset [OF v] by simp
  with f have g: "getDay (getDaysInMonth ?d ! 0) = 4" by simp
  show ?thesis by (intro conjI v f g)
qed

section \<open>Navigation\<close>

lemma normDay_prev:
  assumes "0 \<le> m" "m < 12"
  shows "normDay y m 0 =
           (if m = 0 then y - 1 else y, if m = 0 then 11 else m - 1,
            daysInMonth (if m = 0 then y - 1 else y) (if m = 0 then 11 else m - 1))"
proof -
  have b: "1 \<le> daysInMonth (if m = 0 then y - 1 else y) (if m = 0 then 11 else m - 1)"
    using daysInMonth_bounds [of "if m = 0 then y - 1 else y" "if m = 0 then 11 else m - 1"]
    by simp
  show ?thesis
    by (subst normDay.simps) (simp add: normDay_in_range [OF b])
qed

text \<open>The month after and the month before, as (year, month index).\<close>

definition monthAfter :: "int \<Rightarrow> int \<Rightarrow> int \<times> int" where
  "monthAfter y m = (if m = 11 then (y + 1, 0) else (y, m + 1))"

definition monthBefore :: "int \<Rightarrow> int \<Rightarrow> int \<times> int" where
  "monthBefore y m = (if m = 0 then (y - 1, 11) else (y, m - 1))"

lemma nextMonth_valid:
  assumes "valid_date d"
  shows "nextMonth d =
           (case monthAfter (getFullYear d) (getMonth d) of
              (y', m') \<Rightarrow> \<lparr>getFullYear = y', getMonth = m',
                           getDate = min (getDate d) (daysInMonth y' m'), msInDay = msInDay d\<rparr>)"
proof -
  let ?y = "getFullYear d" and ?m = "getMonth d"
  from assms have m: "0 \<le> ?m" "?m < 12" and k: "1 \<le> getDate d"
    by (simp_all add: valid_date_def)
  obtain y' m' where ma: "monthAfter ?y ?m = (y', m')" by (cases "monthAfter ?y ?m") auto
  have m': "0 \<le> m'" "m' < 12" using ma m by (auto simp: monthAfter_def split: if_splits)
  have two: "?m + 1 + 1 = ?m + 2" by simp
  have nm2: "(?y + (?m + 2) div 12, (?m + 2) mod 12) = monthAfter y' m'"
  proof (cases "?m = 11")
    case True
    with ma show ?thesis by (auto simp: monthAfter_def)
  next
    case False
    show ?thesis
    proof (cases "?m = 10")
      case True
      with ma show ?thesis by (auto simp: monthAfter_def)
    next
      case F: False
      with False m have "?m + 2 < 12" by simp
      with m have "(?m + 2) div 12 = 0" "(?m + 2) mod 12 = ?m + 2" by simp_all
      with ma False F show ?thesis by (auto simp: monthAfter_def)
    qed
  qed
  have nm: "(?y + (?m + 1 + 1) div 12, (?m + 1 + 1) mod 12) = monthAfter y' m'"
    using nm2 by (simp only: two)
  have ma_rng: "0 \<le> snd (monthAfter y' m')" "snd (monthAfter y' m') < 12"
    using m' by (auto simp: monthAfter_def)
  have bk: "normDay (fst (monthAfter y' m')) (snd (monthAfter y' m')) 0 = (y', m', daysInMonth y' m')"
    using m' by (subst normDay_prev [OF ma_rng]) (auto simp: monthAfter_def)
  have e: "setMonth2 d (?m + 1 + 1) 0 =
             \<lparr>getFullYear = y', getMonth = m', getDate = daysInMonth y' m', msInDay = msInDay d\<rparr>"
  proof -
    have "normDay (?y + (?m + 1 + 1) div 12) ((?m + 1 + 1) mod 12) 0 = (y', m', daysInMonth y' m')"
      using bk by (simp only: nm [symmetric] fst_conv snd_conv)
    then show ?thesis
      by (simp only: setMonth2_def dateFromFields_def prod.case)
  qed
  show ?thesis
  proof (cases "getDate d \<ge> daysInMonth y' m'")
    case True
    then show ?thesis
      using e by (simp add: nextMonth_def addMonths_def Let_def ma min_def)
  next
    case False
    then have "setFullYear3 d y' m' (getDate d) =
                 \<lparr>getFullYear = y', getMonth = m', getDate = getDate d, msInDay = msInDay d\<rparr>"
      using m' k by (simp add: setFullYear3_def dateFromFields_in_range)
    with False show ?thesis
      using e by (simp add: nextMonth_def addMonths_def Let_def ma min_def)
  qed
qed

lemma prevMonth_valid:
  assumes "valid_date d"
  shows "prevMonth d =
           (case monthBefore (getFullYear d) (getMonth d) of
              (y', m') \<Rightarrow> \<lparr>getFullYear = y', getMonth = m',
                           getDate = min (getDate d) (daysInMonth y' m'), msInDay = msInDay d\<rparr>)"
proof -
  let ?y = "getFullYear d" and ?m = "getMonth d"
  from assms have m: "0 \<le> ?m" "?m < 12" and k: "1 \<le> getDate d"
    by (simp_all add: valid_date_def)
  obtain y' m' where mb: "monthBefore ?y ?m = (y', m')" by (cases "monthBefore ?y ?m") auto
  have m': "0 \<le> m'" "m' < 12" using mb m by (auto simp: monthBefore_def split: if_splits)
  have dm: "?m div 12 = 0" "?m mod 12 = ?m" using m by simp_all
  have e: "setMonth2 d (?m + - 1 + 1) 0 =
             \<lparr>getFullYear = y', getMonth = m', getDate = daysInMonth y' m', msInDay = msInDay d\<rparr>"
    using mb m by (auto simp: setMonth2_def dateFromFields_def dm normDay_prev monthBefore_def
                        split: if_splits)
  show ?thesis
  proof (cases "getDate d \<ge> daysInMonth y' m'")
    case True
    then show ?thesis
      using e by (simp add: prevMonth_def subMonths_def addMonths_def Let_def mb min_def)
  next
    case False
    then have "setFullYear3 d y' m' (getDate d) =
                 \<lparr>getFullYear = y', getMonth = m', getDate = getDate d, msInDay = msInDay d\<rparr>"
      using m' k by (simp add: setFullYear3_def dateFromFields_in_range)
    with False show ?thesis
      using e by (simp add: prevMonth_def subMonths_def addMonths_def Let_def mb min_def)
  qed
qed

lemma valid_nextMonth:
  assumes "valid_date d"
  shows "valid_date (nextMonth d)"
proof -
  obtain y' m' where ma: "monthAfter (getFullYear d) (getMonth d) = (y', m')"
    by (cases "monthAfter (getFullYear d) (getMonth d)") auto
  from assms have m: "0 \<le> getMonth d" "getMonth d < 12" by (simp_all add: valid_date_def)
  have m': "0 \<le> m'" "m' < 12" using ma m by (auto simp: monthAfter_def split: if_splits)
  have "1 \<le> daysInMonth y' m'" using daysInMonth_bounds [of y' m'] by simp
  with assms m' show ?thesis
    by (simp add: nextMonth_valid [OF assms] ma valid_date_def)
qed

lemma valid_prevMonth:
  assumes "valid_date d"
  shows "valid_date (prevMonth d)"
proof -
  obtain y' m' where mb: "monthBefore (getFullYear d) (getMonth d) = (y', m')"
    by (cases "monthBefore (getFullYear d) (getMonth d)") auto
  from assms have m: "0 \<le> getMonth d" "getMonth d < 12" by (simp_all add: valid_date_def)
  have m': "0 \<le> m'" "m' < 12" using mb m by (auto simp: monthBefore_def split: if_splits)
  have "1 \<le> daysInMonth y' m'" using daysInMonth_bounds [of y' m'] by simp
  with assms m' show ?thesis
    by (simp add: prevMonth_valid [OF assms] mb valid_date_def)
qed

lemma monthBefore_monthAfter:
  "0 \<le> m \<Longrightarrow> m < 12 \<Longrightarrow> monthAfter y m = (y', m') \<Longrightarrow> monthBefore y' m' = (y, m)"
  by (auto simp: monthAfter_def monthBefore_def split: if_splits)

text \<open>
  Claim C7. For every reference date \<open>d\<close> whose day of the month exists in the following
  month, \<open>nextMonth\<close> followed by \<open>prevMonth\<close> gives back \<open>d\<close>, so in particular its month
  and year; the month and year are restored in any case. Each of \<open>nextMonth\<close> and
  \<open>prevMonth\<close> moves the date by exactly one calendar month (counting months as
  \<open>12 * year + month\<close>), keeps the day of the month where the target month has it and takes
  the target month's last day otherwise, and keeps the time of day.
\<close>

theorem prevMonth_nextMonth:
  assumes "valid_date d"
  shows "(getDate d \<le> daysInMonth (getFullYear (nextMonth d)) (getMonth (nextMonth d))
            \<longrightarrow> prevMonth (nextMonth d) = d)
         \<and> isSameMonth (prevMonth (nextMonth d)) d
         \<and> 12 * getFullYear (nextMonth d) + getMonth (nextMonth d)
             = 12 * getFullYear d + getMonth d + 1
         \<and> 0 \<le> getMonth (nextMonth d) \<and> getMonth (nextMonth d) < 12
         \<and> getDate (nextMonth d)
             = min (getDate d) (daysInMonth (getFullYear (nextMonth d)) (getMonth (nextMonth d)))
         \<and> msInDay (nextMonth d) = msInDay d
         \<and> 12 * getFullYear (prevMonth d) + getMonth (prevMonth d)
             = 12 * getFullYear d + getMonth d - 1
         \<and> 0 \<le> getMonth (prevMonth d) \<and> getMonth (prevMonth d) < 12
         \<and> getDate (prevMonth d)
             = min (getDate d) (daysInMonth (getFullYear (prevMonth d)) (getMonth (prevMonth d)))
         \<and> msInDay (prevMonth d) = msInDay d"
proof -
  let ?y = "getFullYear d" and ?m = "getMonth d"
  from assms have m: "0 \<le> ?m" "?m < 12" and k: "1 \<le> getDate d" "getDate d \<le> daysInMonth ?y ?m"
    by (simp_all add: valid_date_def)
  obtain y' m' where ma: "monthAfter ?y ?m = (y', m')" by (cases "monthAfter ?y ?m") auto
  obtain y'' m'' where mb: "monthBefore ?y ?m = (y'', m'')" by (cases "monthBefore ?y ?m") auto
  have nx: "nextMonth d = \<lparr>getFullYear = y', getMonth = m',
              getDate = min (getDate d) (daysInMonth y' m'), msInDay = msInDay d\<rparr>"
    by (simp add: nextMonth_valid [OF assms] ma)
  have pv: "prevMonth d = \<lparr>getFullYear = y'', getMonth = m'',
              getDate = min (getDate d) (daysInMonth y'' m''), msInDay = msInDay d\<rparr>"
    by (simp add: prevMonth_valid [OF assms] mb)
  have bk: "monthBefore y' m' = (?y, ?m)" by (rule monthBefore_monthAfter [OF m ma])
  have pn: "prevMonth (nextMonth d) = \<lparr>getFullYear = ?y, getMonth = ?m,
              getDate = min (min (getDate d) (daysInMonth y' m')) (daysInMonth ?y ?m),
              msInDay = msInDay d\<rparr>"
    using prevMonth_valid [OF valid_nextMonth [OF assms]] by (simp add: nx bk)
  have c1: "getDate d \<le> daysInMonth (getFullYear (nextMonth d)) (getMonth (nextMonth d))
              \<longrightarrow> prevMonth (nextMonth d) = d"
    using k by (simp add: pn) (simp add: nx min_def)
  have c2: "isSameMonth (prevMonth (nextMonth d)) d"
    by (simp add: pn isSameMonth_def)
  have c3: "12 * getFullYear (nextMonth d) + getMonth (nextMonth d) = 12 * ?y + ?m + 1"
    using ma by (auto simp: nx monthAfter_def split: if_splits)
  have c4: "0 \<le> getMonth (nextMonth d)" and c5: "getMonth (nextMonth d) < 12"
    using ma m by (auto simp: nx monthAfter_def split: if_splits)
  have c6: "getDate (nextMonth d)
             = min (getDate d) (daysInMonth (getFullYear (nextMonth d)) (getMonth (nextMonth d)))"
    by (simp add: nx)
  have c7: "msInDay (nextMonth d) = msInDay d" by (simp add: nx)
  have c8: "12 * getFullYear (prevMonth d) + getMonth (prevMonth d) = 12 * ?y + ?m - 1"
    using mb by (auto simp: pv monthBefore_def split: if_splits)
  have c9: "0 \<le> getMonth (prevMonth d)" and c10: "getMonth (prevMonth d) < 12"
    using mb m by (auto simp: pv monthBefore_def split: if_splits)
  have c11: "getDate (prevMonth d)
             = min (getDate d) (daysInMonth (getFullYear (prevMonth d)) (getMonth (prevMonth d)))"
    by (simp add: pv)
  have c12: "msInDay (prevMonth d) = msInDay d" by (simp add: pv)
  show ?thesis
    by (intro conjI c1 c2 c3 c4 c5 c6 c7 c8 c9 c10 c11 c12)
qed

theorem prevMonth_nextMonth_witness:
  "valid_date \<lparr>getFullYear = 2024, getMonth = 0, getDate = 15, msInDay = 36000000\<rparr>
   \<and> nextMonth \<lparr>getFullYear = 2024, getMonth = 0, getDate = 15, msInDay = 36000000\<rparr>
       = \<lparr>getFullYear = 2024, getMonth = 1, getDate = 15, msInDay = 36000000\<rparr>
   \<and> getDate \<lparr>getFullYear = 2024, getMonth = 0, getDate = 15, msInDay = 36000000\<rparr>
       \<le> daysInMonth 2024 1
   \<and> prevMonth (nextMonth \<lparr>getFullYear = 2024, getMonth = 0, getDate = 15, msInDay = 36000000\<rparr>)
       = \<lparr>getFullYear = 2024, getMonth = 0, getDate = 15, msInDay = 36000000\<rparr>"
proof -
  let ?d = "\<lparr>getFullYear = 2024, getMonth = 0, getDate = 15, msInDay = 36000000\<rparr>"
  have v: "valid_date ?d"
    by (simp add: valid_date_def daysInMonth_def msPerDay_def)
  have nx: "nextMonth ?d = \<lparr>getFullYear = 2024, getMonth = 1, getDate = 15, msInDay = 36000000\<rparr>"
    by (simp add: nextMonth_valid [OF v] monthAfter_def daysInMonth_def isLeapYear_def)
  have h: "getDate ?d \<le> daysInMonth 2024 1"
    by (simp add: daysInMonth_def isLeapYear_def)
  then have h': "getDate ?d \<le> daysInMonth (getFullYear (nextMonth ?d)) (getMonth (nextMonth ?d))"
    by (simp only: nx select_convs)
  have r: "prevMonth (nextMonth ?d) = ?d"
    by (rule prevMonth_nextMonth [OF v, THEN conjunct1, THEN mp, OF h'])
  show ?thesis by (intro conjI v nx h r)
qed

text \<open>
  Claim C4. \<open>handleMonthChange\<close> and \<open>handleYearChange\<close> are to replace only the month,
  respectively the year, of the reference date and to clamp the day of the month to the
  target month's last day. The handlers call the host's \<open>setMonth\<close> and \<open>setFullYear\<close>,
  which roll a day that the target month lacks over into the next month: choosing February
  on 2024-01-31 gives 2024-03-02, and choosing 2025 on 2024-02-29 gives 2025-03-01.
\<close>

theorem handleMonthChange_overflow:
  "handleMonthChange ''February'' \<lparr>getFullYear = 2024, getMonth = 0, getDate = 31, msInDay = 0\<rparr>
     = \<lparr>getFullYear = 2024, getMonth = 2, getDate = 2, msInDay = 0\<rparr>
   \<and> handleYearChange ''2025'' \<lparr>getFullYear = 2024, getMonth = 1, getDate = 29, msInDay = 0\<rparr>
       = Some \<lparr>getFullYear = 2025, getMonth = 2, getDate = 1, msInDay = 0\<rparr>"
proof -
  have a: "findIndex (\<lambda>m. m = ''February'') months = 1"
    by (simp add: months_def)
  have b: "normDay 2024 1 31 = (2024, 2, 2)"
    by (simp add: normDay.simps daysInMonth_def isLeapYear_def)
  have c: "parseInt ''2025'' = Some 2025"
    by (simp add: parseInt_def isWhiteSpace_def isRadixDigit_def digitValue_def digitsValue_def)
  have d: "normDay 2025 1 29 = (2025, 2, 1)"
    by (simp add: normDay.simps daysInMonth_def isLeapYear_def)
  show ?thesis
    by (simp add: handleMonthChange_def handleYearChange_def a b c d setMonth_def setFullYear_def
          dateFromFields_def)
qed


section \<open>The event store\<close>

text \<open>
  Lines 37-58: the form's candidate \<open>Omit<Event, "id">\<close> and the stored \<open>Event\<close>, which adds
  the \<open>id\<close>; the notifications handed to \<open>toast\<close>; and the component's state together with
  the browser's \<open>localStorage\<close>.
\<close>

record NewEvent =
  date :: string
  title :: string
  description :: string
  color :: string

record Event = NewEvent +
  id' :: string

record Toast =
  toastTitle :: string
  toastDescription :: string
  variant :: "string option"

record State =
  currentDate :: Date
  events :: "Event list"
  selectedDate :: "Date option"
  newEvent :: NewEvent
  eventDialogOpen :: bool
  toasts :: "Toast list"
  localStorage :: "string \<rightharpoonup> string"

subsection \<open>Formatting a date as \<open>yyyy-MM-dd\<close>\<close>

fun showNat :: "nat \<Rightarrow> string" where
  "showNat n =
     (if n < 10 then [char_of (48 + n)]
      else showNat (n div 10) @ [char_of (48 + n mod 10)])"

declare showNat.simps [simp del]

definition padStart :: "string \<Rightarrow> nat \<Rightarrow> char \<Rightarrow> string" where
  "padStart s targetLength c = replicate (targetLength - length s) c @ s"

definition addLeadingZeros :: "int \<Rightarrow> nat \<Rightarrow> string" where
  "addLeadingZeros number targetLength =
     (let sign = (if number < 0 then ''-'' else []);
          output = padStart (showNat (nat \<bar>number\<bar>)) targetLength (CHR ''0'')
      in sign @ output)"

text \<open>
  The library's \<open>format(date, "yyyy-MM-dd")\<close>: the \<open>y\<close> token prints the year of the era
  (\<open>1 - year\<close> for a year that is not positive), \<open>MM\<close> the month number and \<open>dd\<close> the day,
  each padded with zeros.
\<close>

definition format_yyyy_MM_dd :: "Date \<Rightarrow> string" where
  "format_yyyy_MM_dd d =
     (let signedYear = getFullYear d;
          year = (if signedYear > 0 then signedYear else 1 - signedYear)
      in addLeadingZeros year 4 @ ''-'' @ addLeadingZeros (getMonth d + 1) 2 @ ''-''
           @ addLeadingZeros (getDate d) 2)"

subsection \<open>Adding and querying events\<close>

text \<open>\<open>String.prototype.trim\<close>.\<close>

definition trim :: "string \<Rightarrow> string" where
  "trim s = rev (dropWhile isWhiteSpace (rev (dropWhile isWhiteSpace s)))"

text \<open>
  Lines 125-155. The identifier returned by \<open>crypto.randomUUID()\<close> and the clock's
  \<open>new Date()\<close> are inputs of the handler.
\<close>

definition handleAddEvent :: "string \<Rightarrow> Date \<Rightarrow> State \<Rightarrow> State" where
  "handleAddEvent uuid now s =
     (if trim (title (newEvent s)) = [] then
        s\<lparr>toasts := toasts s @
            [\<lparr>toastTitle = ''Error'', toastDescription = ''Event title is required'',
              variant = Some ''destructive''\<rparr>]\<rparr>
      else
        let eventToAdd =
              \<lparr>date = (case selectedDate s of
                         Some sel \<Rightarrow> format_yyyy_MM_dd sel
                       | None \<Rightarrow> format_yyyy_MM_dd now),
               title = title (newEvent s),
               description = description (newEvent s),
               color = color (newEvent s),
               id' = uuid\<rparr>
        in s\<lparr>events := events s @ [eventToAdd],
             newEvent := \<lparr>date = [], title = [], description = [], color = ''#4f46e5''\<rparr>,
             eventDialogOpen := False,
             toasts := toasts s @
               [\<lparr>toastTitle = ''Event added'',
                 toastDescription = ''Your event has been successfully added to the calendar'',
                 variant = None\<rparr>]\<rparr>)"

text \<open>Lines 157-161.\<close>

definition getEventsForDate :: "Event list \<Rightarrow> Date \<Rightarrow> Event list" where
  "getEventsForDate evs d =
     (let dateString = format_yyyy_MM_dd d
      in filter (\<lambda>event. date event = dateString) evs)"

text \<open>Lines 215-222: a click on a day cell selects the day, fills the form's date and opens the dialog.\<close>

definition handleDayClick :: "Date \<Rightarrow> State \<Rightarrow> State" where
  "handleDayClick d s =
     s\<lparr>selectedDate := Some d,
       newEvent := (newEvent s)\<lparr>date := format_yyyy_MM_dd d\<rparr>,
       eventDialogOpen := True\<rparr>"

text \<open>Lines 436-450: typing into the form's date and title fields.\<close>

definition handleDateInput :: "string \<Rightarrow> State \<Rightarrow> State" where
  "handleDateInput v s = s\<lparr>newEvent := (newEvent s)\<lparr>date := v\<rparr>\<rparr>"

definition handleTitleInput :: "string \<Rightarrow> State \<Rightarrow> State" where
  "handleTitleInput v s = s\<lparr>newEvent := (newEvent s)\<lparr>title := v\<rparr>\<rparr>"

text \<open>
  Lines 421 and 476: the "Add Event" button and the dialog's own controls open and close
  the dialog through \<open>setEventDialogOpen\<close>, which touches nothing else.
\<close>

definition setEventDialogOpen :: "bool \<Rightarrow> State \<Rightarrow> State" where
  "setEventDialogOpen open' s = s\<lparr>eventDialogOpen := open'\<rparr>"

section \<open>Persistence: JSON text in \<open>localStorage\<close>\<close>

text \<open>
  The values \<open>JSON.stringify\<close> writes and \<open>JSON.parse\<close> reads (ECMA-262, 25.5). A number
  is kept as its text.
\<close>

datatype json =
    JNull
  | JBool bool
  | JNumber string
  | JString string
  | JArray "json list"
  | JObject "(string \<times> json) list"

definition hexDigit :: "nat \<Rightarrow> char" where
  "hexDigit n = (if n < 10 then char_of (48 + n) else char_of (87 + n))"

text \<open>
  \<open>QuoteJSONString\<close>: the quotation mark and the backslash are escaped, the control
  characters are written as \<open>\b \t \n \f \r\<close> or as \<open>\u00XX\<close>, every other code unit stands
  for itself.
\<close>

definition quoteChar :: "char \<Rightarrow> string" where
  "quoteChar c =
     (let n = (of_char c :: nat) in
      if n = 8 then [CHR 0x5C, CHR ''b'']
      else if n = 9 then [CHR 0x5C, CHR ''t'']
      else if n = 10 then [CHR 0x5C, CHR ''n'']
      else if n = 12 then [CHR 0x5C, CHR ''f'']
      else if n = 13 then [CHR 0x5C, CHR ''r'']
      else if n = 34 then [CHR 0x5C, CHR 0x22]
      else if n = 92 then [CHR 0x5C, CHR 0x5C]
      else if n < 32 then
        [CHR 0x5C, CHR ''u'', CHR ''0'', CHR ''0'', hexDigit (n div 16), hexDigit (n mod 16)]
      else [c])"

definition quoteJSONString :: "string \<Rightarrow> string" where
  "quoteJSONString s = CHR 0x22 # concat (map quoteChar s) @ [CHR 0x22]"

fun join :: "string \<Rightarrow> string list \<Rightarrow> string" where
  "join sep [] = []"
| "join sep [x] = x"
| "join sep (x # y # ys) = x @ sep @ join sep (y # ys)"

fun JSON_stringify :: "json \<Rightarrow> string" where
  "JSON_stringify JNull = ''null''"
| "JSON_stringify (JBool b) = (if b then ''true'' else ''false'')"
| "JSON_stringify (JNumber n) = n"
| "JSON_stringify (JString s) = quoteJSONString s"
| "JSON_stringify (JArray xs) = ''['' @ join '','' (map JSON_stringify xs) @ '']''"
| "JSON_stringify (JObject kvs) =
     ''{'' @ join '','' (map (\<lambda>kv. quoteJSONString (fst kv) @ '':'' @ JSON_stringify (snd kv)) kvs)
       @ ''}''"

text \<open>
  An \<open>Event\<close> as the object the component builds: the candidate's properties in the order
  \<open>date\<close>, \<open>title\<close>, \<open>description\<close>, \<open>color\<close>, then \<open>id\<close>.
\<close>

definition eventToJson :: "Event \<Rightarrow> json" where
  "eventToJson e =
     JObject [(''date'', JString (date e)), (''title'', JString (title e)),
              (''description'', JString (description e)), (''color'', JString (color e)),
              (''id'', JString (id' e))]"

definition eventsToJson :: "Event list \<Rightarrow> json" where
  "eventsToJson evs = JArray (map eventToJson evs)"

text \<open>Lines 78-81: the effect that runs after every change of \<open>events\<close>.\<close>

definition saveEffect :: "State \<Rightarrow> State" where
  "saveEffect s =
     s\<lparr>localStorage := (localStorage s)(''calendar-events'' \<mapsto> JSON_stringify (eventsToJson (events s)))\<rparr>"

subsection \<open>Reading JSON text\<close>

text \<open>
  \<open>JSON.parse\<close>, by recursive descent over the JSON grammar; \<open>None\<close> stands for the
  \<open>SyntaxError\<close> the host throws. White space is TAB, LF, CR and SP.
\<close>

definition isJsonWhiteSpace :: "char \<Rightarrow> bool" where
  "isJsonWhiteSpace c \<longleftrightarrow> (of_char c :: nat) \<in> {9, 10, 13, 32}"

definition skipWs :: "string \<Rightarrow> string" where
  "skipWs s = dropWhile isJsonWhiteSpace s"

definition hexValue :: "char \<Rightarrow> nat option" where
  "hexValue c =
     (let n = (of_char c :: nat) in
      if 48 \<le> n \<and> n \<le> 57 then Some (n - 48)
      else if 97 \<le> n \<and> n \<le> 102 then Some (n - 87)
      else if 65 \<le> n \<and> n \<le> 70 then Some (n - 55)
      else None)"

text \<open>
  What follows a backslash inside a string: one of \<open>" \ / b f n r t\<close>, or \<open>u\<close> and four
  hexadecimal digits. A \<open>\u\<close> escape of a code unit above 255 has no \<open>char\<close> and is refused.
\<close>

definition readEscape :: "string \<Rightarrow> (char \<times> string) option" where
  "readEscape s =
     (case s of
        [] \<Rightarrow> None
      | e # r \<Rightarrow>
          if e = CHR 0x22 then Some (CHR 0x22, r)
          else if e = CHR 0x5C then Some (CHR 0x5C, r)
          else if e = CHR ''/'' then Some (CHR ''/'', r)
          else if e = CHR ''b'' then Some (CHR 0x08, r)
          else if e = CHR ''f'' then Some (CHR 0x0C, r)
          else if e = CHR ''n'' then Some (CHR 0x0A, r)
          else if e = CHR ''r'' then Some (CHR 0x0D, r)
          else if e = CHR ''t'' then Some (CHR 0x09, r)
          else if e = CHR ''u'' then
            (case r of
               h1 # h2 # h3 # h4 # r' \<Rightarrow>
                 (case (hexValue h1, hexValue h2, hexValue h3, hexValue h4) of
                    (Some a, Some b, Some c, Some d) \<Rightarrow>
                      (let n = ((a * 16 + b) * 16 + c) * 16 + d
                       in if n < 256 then Some (char_of n, r') else None)
                  | _ \<Rightarrow> None)
             | _ \<Rightarrow> None)
          else None)"

lemma readEscape_shorter: "readEscape s = Some (c, r) \<Longrightarrow> length r < length s"
  by (auto simp: readEscape_def Let_def split: list.splits if_splits option.splits)

text \<open>The characters of a string after its opening quotation mark, up to the closing one.\<close>

function parseChars :: "string \<Rightarrow> (string \<times> string) option" where
  "parseChars [] = None"
| "parseChars (c # cs) =
     (if c = CHR 0x22 then Some ([], cs)
      else if c = CHR 0x5C then
        (case readEscape cs of
           None \<Rightarrow> None
         | Some (ch, r) \<Rightarrow>
             (case parseChars r of None \<Rightarrow> None | Some (str, r') \<Rightarrow> Some (ch # str, r')))
      else if (of_char c :: nat) < 32 then None
      else (case parseChars cs of None \<Rightarrow> None | Some (str, r') \<Rightarrow> Some (c # str, r')))"
  by pat_completeness auto
termination
  by (relation "measure length") (auto dest: readEscape_shorter)

definition isDigit :: "char \<Rightarrow> bool" where
  "isDigit c \<longleftrightarrow> 48 \<le> (of_char c :: nat) \<and> (of_char c :: nat) \<le> 57"

text \<open>A number token: \<open>-? (0 | [1-9][0-9]*) (. [0-9]+)? ([eE] [+-]? [0-9]+)?\<close>.\<close>

definition parseNumber :: "string \<Rightarrow> (string \<times> string) option" where
  "parseNumber s =
     (let sign = (if s \<noteq> [] \<and> hd s = CHR ''-'' then ''-'' else []);
          s1 = drop (length sign) s;
          ds = takeWhile isDigit s1;
          ip = (if ds \<noteq> [] \<and> hd ds = CHR ''0'' then ''0'' else ds);
          s2 = drop (length ip) s1;
          fd = (if s2 \<noteq> [] \<and> hd s2 = CHR ''.'' then takeWhile isDigit (tl s2) else []);
          fp = (if s2 \<noteq> [] \<and> hd s2 = CHR ''.'' then CHR ''.'' # fd else []);
          s3 = drop (length fp) s2;
          hasExp = (s3 \<noteq> [] \<and> (hd s3 = CHR ''e'' \<or> hd s3 = CHR ''E''));
          s4 = (if hasExp then tl s3 else s3);
          es = (if hasExp \<and> s4 \<noteq> [] \<and> (hd s4 = CHR ''+'' \<or> hd s4 = CHR ''-'') then [hd s4] else []);
          ed = (if hasExp then takeWhile isDigit (drop (length es) s4) else []);
          ep = (if hasExp then hd s3 # es @ ed else [])
      in if ip = [] \<or> (fp \<noteq> [] \<and> fd = []) \<or> (hasExp \<and> ed = []) then None
         else Some (sign @ ip @ fp @ ep, drop (length ep) s3))"

text \<open>
  A value, the elements of an array after \<open>[\<close>, and the members of an object after \<open>{\<close>.
  The first argument bounds the number of nested calls.
\<close>

fun parseValue :: "nat \<Rightarrow> string \<Rightarrow> (json \<times> string) option"
  and parseElements :: "nat \<Rightarrow> string \<Rightarrow> (json list \<times> string) option"
  and parseMembers :: "nat \<Rightarrow> string \<Rightarrow> ((string \<times> json) list \<times> string) option" where
  "parseValue 0 s = None"
| "parseValue (Suc n) s =
     (case skipWs s of
        [] \<Rightarrow> None
      | c # cs \<Rightarrow>
          if c = CHR 0x22 then
            (case parseChars cs of None \<Rightarrow> None | Some (str, r) \<Rightarrow> Some (JString str, r))
          else if c = CHR ''['' then
            (case skipWs cs of
               [] \<Rightarrow> None
             | c' # r \<Rightarrow>
                 if c' = CHR '']'' then Some (JArray [], r)
                 else (case parseElements n cs of
                         None \<Rightarrow> None
                       | Some (xs, r') \<Rightarrow> Some (JArray xs, r')))
          else if c = CHR ''{'' then
            (case skipWs cs of
               [] \<Rightarrow> None
             | c' # r \<Rightarrow>
                 if c' = CHR ''}'' then Some (JObject [], r)
                 else (case parseMembers n cs of
                         None \<Rightarrow> None
                       | Some (kvs, r') \<Rightarrow> Some (JObject kvs, r')))
          else if take 4 (c # cs) = ''true'' then Some (JBool True, drop 4 (c # cs))
          else if take 5 (c # cs) = ''false'' then Some (JBool False, drop 5 (c # cs))
          else if take 4 (c # cs) = ''null'' then Some (JNull, drop 4 (c # cs))
          else (case parseNumber (c # cs) of
                  None \<Rightarrow> None
                | Some (t, r) \<Rightarrow> Some (JNumber t, r)))"
| "parseElements 0 s = None"
| "parseElements (Suc n) s =
     (case parseValue n s of
        None \<Rightarrow> None
      | Some (v, r) \<Rightarrow>
          (case skipWs r of
             [] \<Rightarrow> None
           | c # r' \<Rightarrow>
               if c = CHR '','' then
                 (case parseElements n r' of
                    None \<Rightarrow> None
                  | Some (vs, r'') \<Rightarrow> Some (v # vs, r''))
               else if c = CHR '']'' then Some ([v], r')
               else None))"
| "parseMembers 0 s = None"
| "parseMembers (Suc n) s =
     (case skipWs s of
        [] \<Rightarrow> None
      | q # cs \<Rightarrow>
          if q \<noteq> CHR 0x22 then None
          else
            (case parseChars cs of
               None \<Rightarrow> None
             | Some (k, r) \<Rightarrow>
                 (case skipWs r of
                    [] \<Rightarrow> None
                  | c # r' \<Rightarrow>
                      if c \<noteq> CHR '':'' then None
                      else
                        (case parseValue n r' of
                           None \<Rightarrow> None
                         | Some (v, r'') \<Rightarrow>
                             (case skipWs r'' of
                                [] \<Rightarrow> None
                              | c' # r3 \<Rightarrow>
                                  if c' = CHR '','' then
                                    (case parseMembers n r3 of
                                       None \<Rightarrow> None
                                     | Some (kvs, r4) \<Rightarrow> Some ((k, v) # kvs, r4))
                                  else if c' = CHR ''}'' then Some ([(k, v)], r3)
                                  else None)))))"

definition JSON_parse :: "string \<Rightarrow> json option" where
  "JSON_parse text =
     (case parseValue (2 * length text + 2) text of
        None \<Rightarrow> None
      | Some (v, r) \<Rightarrow> if skipWs r = [] then Some v else None)"

text \<open>
  The component takes the parsed value for its events without a check. A value that is
  not an array of objects of the component's own shape has no \<open>Event list\<close> and is
  reported as \<open>NotAnEventArray\<close>.
\<close>

definition jsonToEvent :: "json \<Rightarrow> Event option" where
  "jsonToEvent j =
     (case j of
        JObject [(k1, JString a), (k2, JString b), (k3, JString c), (k4, JString d),
                 (k5, JString e)] \<Rightarrow>
          if k1 = ''date'' \<and> k2 = ''title'' \<and> k3 = ''description'' \<and> k4 = ''color''
             \<and> k5 = ''id''
          then Some \<lparr>date = a, title = b, description = c, color = d, id' = e\<rparr>
          else None
      | _ \<Rightarrow> None)"

definition jsonToEvents :: "json \<Rightarrow> Event list option" where
  "jsonToEvents j = (case j of JArray xs \<Rightarrow> those (map jsonToEvent xs) | _ \<Rightarrow> None)"

datatype load_error = SyntaxError | NotAnEventArray

text \<open>Lines 70-76: the effect that runs once when the component is mounted.\<close>

definition loadEffect :: "State \<Rightarrow> load_error + State" where
  "loadEffect s =
     (case localStorage s ''calendar-events'' of
        None \<Rightarrow> Inr s
      | Some savedEvents \<Rightarrow>
          if savedEvents = [] then Inr s
          else
            (case JSON_parse savedEvents of
               None \<Rightarrow> Inl SyntaxError
             | Some j \<Rightarrow>
                 (case jsonToEvents j of
                    None \<Rightarrow> Inl NotAnEventArray
                  | Some evs \<Rightarrow> Inr (s\<lparr>events := evs\<rparr>))))"

text \<open>Lines 47-56: the state of a freshly mounted component.\<close>

definition initialState :: "Date \<Rightarrow> (string \<rightharpoonup> string) \<Rightarrow> State" where
  "initialState now storage =
     \<lparr>currentDate = now,
      events = [],
      selectedDate = None,
      newEvent = \<lparr>date = [], title = [], description = [], color = ''#4f46e5''\<rparr>,
      eventDialogOpen = False,
      toasts = [],
      localStorage = storage\<rparr>"

subsection \<open>Properties of adding and querying\<close>

lemma trim_empty_iff: "trim s = [] \<longleftrightarrow> list_all isWhiteSpace s"
proof
  assume t: "trim s = []"
  show "list_all isWhiteSpace s"
  proof (rule ccontr)
    assume "\<not> list_all isWhiteSpace s"
    then have ne: "dropWhile isWhiteSpace s \<noteq> []"
      by (simp add: list_all_iff dropWhile_eq_Nil_conv)
    then have "\<not> isWhiteSpace (hd (dropWhile isWhiteSpace s))"
      by (rule hd_dropWhile)
    moreover have "hd (dropWhile isWhiteSpace s) \<in> set (rev (dropWhile isWhiteSpace s))"
      using ne by simp
    ultimately have "dropWhile isWhiteSpace (rev (dropWhile isWhiteSpace s)) \<noteq> []"
      by (auto simp: dropWhile_eq_Nil_conv)
    with t show False by (simp add: trim_def)
  qed
next
  assume "list_all isWhiteSpace s"
  then have d: "dropWhile isWhiteSpace s = []"
    by (simp add: list_all_iff dropWhile_eq_Nil_conv)
  show "trim s = []" unfolding trim_def d by simp
qed

definition errorToast :: Toast where
  "errorToast = \<lparr>toastTitle = ''Error'', toastDescription = ''Event title is required'',
                  variant = Some ''destructive''\<rparr>"

text \<open>
  Claim C2. For every state whose candidate title is empty or consists of white space
  only, \<open>handleAddEvent\<close> reports the validation error (the destructive notification
  "Event title is required") and changes nothing else: the events, the stored copy (also
  after the save effect), the candidate and the dialog's open flag stay as they were, so
  the form remains open.
\<close>

theorem handleAddEvent_blank_title:
  assumes "list_all isWhiteSpace (title (newEvent s))"
  shows "handleAddEvent uuid now s = s\<lparr>toasts := toasts s @ [errorToast]\<rparr>
         \<and> events (handleAddEvent uuid now s) = events s
         \<and> localStorage (handleAddEvent uuid now s) = localStorage s
         \<and> localStorage (saveEffect (handleAddEvent uuid now s)) = localStorage (saveEffect s)
         \<and> eventDialogOpen (handleAddEvent uuid now s) = eventDialogOpen s
         \<and> newEvent (handleAddEvent uuid now s) = newEvent s"
proof -
  from assms have t: "trim (title (newEvent s)) = []" by (simp add: trim_empty_iff)
  have r: "handleAddEvent uuid now s = s\<lparr>toasts := toasts s @ [errorToast]\<rparr>"
    by (simp add: handleAddEvent_def t errorToast_def)
  show ?thesis
    by (simp add: r saveEffect_def)
qed

text \<open>A form opened on 2024-03-15 whose title holds two spaces.\<close>

definition blankForm :: State where
  "blankForm =
     \<lparr>currentDate = \<lparr>getFullYear = 2024, getMonth = 2, getDate = 15, msInDay = 0\<rparr>,
      events = [\<lparr>date = ''2024-03-01'', title = ''Launch'', description = [],
                 color = ''#4f46e5'', id' = ''a1''\<rparr>],
      selectedDate = Some \<lparr>getFullYear = 2024, getMonth = 2, getDate = 15, msInDay = 0\<rparr>,
      newEvent = \<lparr>date = ''2024-03-15'', title = ''  '', description = [], color = ''#4f46e5''\<rparr>,
      eventDialogOpen = True,
      toasts = [],
      localStorage = Map.empty\<rparr>"

theorem handleAddEvent_blank_title_witness:
  "list_all isWhiteSpace (title (newEvent blankForm))
   \<and> handleAddEvent ''u1'' \<lparr>getFullYear = 2024, getMonth = 2, getDate = 15, msInDay = 0\<rparr> blankForm
       = blankForm\<lparr>toasts := [errorToast]\<rparr>
   \<and> eventDialogOpen
        (handleAddEvent ''u1'' \<lparr>getFullYear = 2024, getMonth = 2, getDate = 15, msInDay = 0\<rparr> blankForm)"
proof -
  have h: "list_all isWhiteSpace (title (newEvent blankForm))"
    by (simp add: blankForm_def isWhiteSpace_def)
  note t = handleAddEvent_blank_title [OF h, of "''u1''"
      "\<lparr>getFullYear = 2024, getMonth = 2, getDate = 15, msInDay = 0\<rparr>"]
  have a: "handleAddEvent ''u1'' \<lparr>getFullYear = 2024, getMonth = 2, getDate = 15, msInDay = 0\<rparr> blankForm
             = blankForm\<lparr>toasts := [errorToast]\<rparr>"
    using t [THEN conjunct1] by (simp add: blankForm_def)
  have b: "eventDialogOpen
        (handleAddEvent ''u1'' \<lparr>getFullYear = 2024, getMonth = 2, getDate = 15, msInDay = 0\<rparr> blankForm)"
    by (simp add: a) (simp add: blankForm_def)
  show ?thesis by (intro conjI h a b)
qed

text \<open>
  Claim C6. For every event list and date, \<open>getEventsForDate\<close> returns exactly the events
  whose \<open>date\<close> string equals the date's \<open>yyyy-MM-dd\<close> form: only such events, all of them,
  as a subsequence of the list in its order. 2024-03-15 is written \<open>2024-03-15\<close>.
\<close>

theorem getEventsForDate_exact:
  "getEventsForDate evs d = filter (\<lambda>e. date e = format_yyyy_MM_dd d) evs
   \<and> set (getEventsForDate evs d) = {e. e \<in> set evs \<and> date e = format_yyyy_MM_dd d}
   \<and> subseq (getEventsForDate evs d) evs
   \<and> format_yyyy_MM_dd \<lparr>getFullYear = 2024, getMonth = 2, getDate = 15, msInDay = 0\<rparr>
       = ''2024-03-15''"
proof -
  have a: "getEventsForDate evs d = filter (\<lambda>e. date e = format_yyyy_MM_dd d) evs"
    by (simp add: getEventsForDate_def)
  have b: "set (getEventsForDate evs d) = {e. e \<in> set evs \<and> date e = format_yyyy_MM_dd d}"
    by (auto simp: a)
  have c: "subseq (getEventsForDate evs d) evs"
    by (simp add: a)
  have d: "format_yyyy_MM_dd \<lparr>getFullYear = 2024, getMonth = 2, getDate = 15, msInDay = 0\<rparr>
       = ''2024-03-15''"
    by code_simp
  show ?thesis by (intro conjI a b c d)
qed

text \<open>The event a successful submission appends.\<close>

definition eventToAdd :: "string \<Rightarrow> Date \<Rightarrow> State \<Rightarrow> Event" where
  "eventToAdd uuid now s =
     \<lparr>date = (case selectedDate s of
                Some sel \<Rightarrow> format_yyyy_MM_dd sel
              | None \<Rightarrow> format_yyyy_MM_dd now),
      title = title (newEvent s),
      description = description (newEvent s),
      color = color (newEvent s),
      id' = uuid\<rparr>"

lemma events_handleAddEvent:
  "events (handleAddEvent uuid now s) =
     (if trim (title (newEvent s)) = [] then events s
      else events s @ [eventToAdd uuid now s])"
  by (simp add: handleAddEvent_def eventToAdd_def Let_def)

text \<open>
  A form opened with the "Add Event" button (no day selected) on 2024-01-01, in which the
  user typed the date 2024-03-15 and the title "Meeting".
\<close>

definition meetingForm :: State where
  "meetingForm =
     \<lparr>currentDate = \<lparr>getFullYear = 2024, getMonth = 0, getDate = 1, msInDay = 32400000\<rparr>,
      events = [\<lparr>date = ''2024-03-01'', title = ''Launch'', description = [],
                 color = ''#4f46e5'', id' = ''a1''\<rparr>],
      selectedDate = None,
      newEvent = \<lparr>date = ''2024-03-15'', title = ''Meeting'', description = [],
                   color = ''#4f46e5''\<rparr>,
      eventDialogOpen = True,
      toasts = [],
      localStorage = Map.empty\<rparr>"

definition newYear2024 :: Date where
  "newYear2024 = \<lparr>getFullYear = 2024, getMonth = 0, getDate = 1, msInDay = 32400000\<rparr>"

definition march15 :: Date where
  "march15 = \<lparr>getFullYear = 2024, getMonth = 2, getDate = 15, msInDay = 0\<rparr>"

lemma trim_Meeting: "trim ''Meeting'' = ''Meeting''"
  by (simp add: trim_def isWhiteSpace_def)

lemma format_newYear2024: "format_yyyy_MM_dd newYear2024 = ''2024-01-01''"
  by code_simp

lemma format_march15: "format_yyyy_MM_dd march15 = ''2024-03-15''"
  by code_simp

lemma events_meetingForm:
  "events (handleAddEvent ''b2'' newYear2024 meetingForm) =
     [\<lparr>date = ''2024-03-01'', title = ''Launch'', description = [], color = ''#4f46e5'', id' = ''a1''\<rparr>,
      \<lparr>date = ''2024-01-01'', title = ''Meeting'', description = [], color = ''#4f46e5'', id' = ''b2''\<rparr>]"
  by (simp add: events_handleAddEvent eventToAdd_def meetingForm_def trim_Meeting format_newYear2024)

definition jan20 :: Date where
  "jan20 = \<lparr>getFullYear = 2024, getMonth = 0, getDate = 20, msInDay = 0\<rparr>"

text \<open>
  On 2024-01-01: a click on the cell of 2024-01-20, Cancel, then the "Add Event" button
  and the title "Meeting".
\<close>

definition staleForm :: State where
  "staleForm =
     handleTitleInput ''Meeting''
       (setEventDialogOpen True
          (setEventDialogOpen False
             (handleDayClick jan20 (initialState newYear2024 Map.empty))))"

text \<open>On 2024-01-01: a click on the cell of 2024-01-20 and the title "Meeting".\<close>

definition clickedForm :: State where
  "clickedForm =
     handleTitleInput ''Meeting'' (handleDayClick jan20 (initialState newYear2024 Map.empty))"

lemma format_jan20: "format_yyyy_MM_dd jan20 = ''2024-01-20''"
  by code_simp

text \<open>
  Claim C10. The stored date is to be never the form's date, and always the day cell
  selected when the form was opened or, with none selected, the clock's date. The handler
  reads \<open>selectedDate\<close>, which only a day-cell click sets and nothing resets: a form opened
  with the "Add Event" button after an earlier click on 2024-01-20 stores 2024-01-20 on
  2024-01-01; and right after a day-cell click the stored date equals the form's date.
\<close>

theorem handleAddEvent_date_source_counterexample:
  "eventDialogOpen staleForm
   \<and> date (last (events (handleAddEvent ''b2'' newYear2024 staleForm))) = ''2024-01-20''
   \<and> format_yyyy_MM_dd newYear2024 = ''2024-01-01''
   \<and> date (last (events (handleAddEvent ''b2'' newYear2024 clickedForm)))
       = date (newEvent clickedForm)"
proof -
  have a: "eventDialogOpen staleForm"
    by (simp add: staleForm_def handleTitleInput_def setEventDialogOpen_def)
  have b: "date (last (events (handleAddEvent ''b2'' newYear2024 staleForm))) = ''2024-01-20''"
    by (simp add: events_handleAddEvent eventToAdd_def staleForm_def handleTitleInput_def
          setEventDialogOpen_def handleDayClick_def initialState_def trim_Meeting format_jan20)
  have c: "date (last (events (handleAddEvent ''b2'' newYear2024 clickedForm)))
             = date (newEvent clickedForm)"
    by (simp add: events_handleAddEvent eventToAdd_def clickedForm_def handleTitleInput_def
          handleDayClick_def initialState_def trim_Meeting)
  show ?thesis by (intro conjI a b format_newYear2024 c)
qed

text \<open>
  Claim C10, amended. On a successful add the handler does not read the form's date
  field: the resulting store is the same for every value of it, although the two dates
  coincide right after a day-cell click. When the form was opened by a click on a day
  cell, the stored date is that day's \<open>yyyy-MM-dd\<close> form; when no day cell has been clicked,
  it is that of the clock's current date.
\<close>

theorem handleAddEvent_date_source:
  assumes "trim t \<noteq> []" and "selectedDate s0 = None"
  shows "events (handleAddEvent uuid now (handleDateInput v s)) = events (handleAddEvent uuid now s)
         \<and> events (handleAddEvent uuid now (handleTitleInput t (handleDateInput v (handleDayClick d s))))
             = events s @ [\<lparr>date = format_yyyy_MM_dd d, title = t,
                             description = description (newEvent s), color = color (newEvent s),
                             id' = uuid\<rparr>]
         \<and> events (handleAddEvent uuid now
               (handleTitleInput t (handleDateInput v (setEventDialogOpen True s0))))
             = events s0 @ [\<lparr>date = format_yyyy_MM_dd now, title = t,
                              description = description (newEvent s0), color = color (newEvent s0),
                              id' = uuid\<rparr>]
         \<and> date (newEvent (handleTitleInput t (handleDayClick d s))) = format_yyyy_MM_dd d"
proof -
  have a: "events (handleAddEvent uuid now (handleDateInput v s)) = events (handleAddEvent uuid now s)"
    by (simp add: events_handleAddEvent eventToAdd_def handleDateInput_def)
  have b: "events (handleAddEvent uuid now (handleTitleInput t (handleDateInput v (handleDayClick d s))))
             = events s @ [\<lparr>date = format_yyyy_MM_dd d, title = t,
                             description = description (newEvent s), color = color (newEvent s),
                             id' = uuid\<rparr>]"
    using assms(1)
    by (simp add: events_handleAddEvent eventToAdd_def handleTitleInput_def handleDateInput_def
          handleDayClick_def)
  have c: "events (handleAddEvent uuid now
               (handleTitleInput t (handleDateInput v (setEventDialogOpen True s0))))
             = events s0 @ [\<lparr>date = format_yyyy_MM_dd now, title = t,
                              description = description (newEvent s0), color = color (newEvent s0),
                              id' = uuid\<rparr>]"
    using assms
    by (simp add: events_handleAddEvent eventToAdd_def handleTitleInput_def handleDateInput_def
          setEventDialogOpen_def)
  have d: "date (newEvent (handleTitleInput t (handleDayClick d s))) = format_yyyy_MM_dd d"
    by (simp add: handleTitleInput_def handleDayClick_def)
  show ?thesis by (intro conjI a b c d)
qed

theorem handleAddEvent_date_source_witness:
  "trim ''Meeting'' \<noteq> []
   \<and> selectedDate (initialState newYear2024 Map.empty) = None
   \<and> events (handleAddEvent ''b2'' newYear2024
         (handleTitleInput ''Meeting''
            (handleDateInput ''2024-03-15''
               (setEventDialogOpen True (initialState newYear2024 Map.empty)))))
       = [\<lparr>date = ''2024-01-01'', title = ''Meeting'', description = [], color = ''#4f46e5'',
           id' = ''b2''\<rparr>]
   \<and> events (handleAddEvent ''b2'' newYear2024
         (handleTitleInput ''Meeting''
            (handleDateInput ''2024-03-15''
               (handleDayClick jan20 (initialState newYear2024 Map.empty)))))
       = [\<lparr>date = ''2024-01-20'', title = ''Meeting'', description = [], color = ''#4f46e5'',
           id' = ''b2''\<rparr>]"
proof -
  have h1: "trim ''Meeting'' \<noteq> []" by (simp add: trim_Meeting)
  have h2: "selectedDate (initialState newYear2024 Map.empty) = None"
    by (simp add: initialState_def)
  note t = handleAddEvent_date_source [OF h1 h2, of "''b2''" newYear2024 "''2024-03-15''"
      "initialState newYear2024 Map.empty" jan20]
  have c: "events (handleAddEvent ''b2'' newYear2024
         (handleTitleInput ''Meeting''
            (handleDateInput ''2024-03-15''
               (setEventDialogOpen True (initialState newYear2024 Map.empty)))))
       = [\<lparr>date = ''2024-01-01'', title = ''Meeting'', description = [], color = ''#4f46e5'',
           id' = ''b2''\<rparr>]"
    using t [THEN conjunct2, THEN conjunct2, THEN conjunct1]
    by (simp add: initialState_def format_newYear2024)
  have b: "events (handleAddEvent ''b2'' newYear2024
         (handleTitleInput ''Meeting''
            (handleDateInput ''2024-03-15''
               (handleDayClick jan20 (initialState newYear2024 Map.empty)))))
       = [\<lparr>date = ''2024-01-20'', title = ''Meeting'', description = [], color = ''#4f46e5'',
           id' = ''b2''\<rparr>]"
    using t [THEN conjunct2, THEN conjunct1]
    by (simp add: initialState_def format_jan20)
  show ?thesis by (intro conjI h1 h2 c b)
qed

text \<open>
  Claim C3. Adding the candidate with date 2024-03-15 and title "Meeting" is to make
  \<open>getEventsForDate\<close> for 2024-03-15 include the new event. With no day selected on
  2024-01-01 the store grows by one event carrying the generated id, but the event is
  stored under 2024-01-01 and the query for 2024-03-15 is empty.
\<close>

theorem handleAddEvent_ignores_form_date:
  "date (newEvent meetingForm) = ''2024-03-15''
   \<and> title (newEvent meetingForm) = ''Meeting''
   \<and> length (events (handleAddEvent ''b2'' newYear2024 meetingForm)) = length (events meetingForm) + 1
   \<and> last (events (handleAddEvent ''b2'' newYear2024 meetingForm))
       = \<lparr>date = ''2024-01-01'', title = ''Meeting'', description = [], color = ''#4f46e5'',
          id' = ''b2''\<rparr>
   \<and> getEventsForDate (events (handleAddEvent ''b2'' newYear2024 meetingForm)) march15 = []"
proof -
  have a: "date (newEvent meetingForm) = ''2024-03-15''" "title (newEvent meetingForm) = ''Meeting''"
    by (simp_all add: meetingForm_def)
  have b: "length (events (handleAddEvent ''b2'' newYear2024 meetingForm)) = length (events meetingForm) + 1"
    by (simp add: events_meetingForm) (simp add: meetingForm_def)
  have c: "last (events (handleAddEvent ''b2'' newYear2024 meetingForm))
       = \<lparr>date = ''2024-01-01'', title = ''Meeting'', description = [], color = ''#4f46e5'',
          id' = ''b2''\<rparr>"
    by (simp add: events_meetingForm)
  have d: "getEventsForDate (events (handleAddEvent ''b2'' newYear2024 meetingForm)) march15 = []"
    by (simp add: events_meetingForm getEventsForDate_def format_march15)
  show ?thesis by (intro conjI a b c d)
qed


subsection \<open>Reading back what was written\<close>

lemma char_eqI: "(of_char c :: nat) = of_char d \<Longrightarrow> c = d"
  by simp

lemma hexValue_hexDigit: "k < 16 \<Longrightarrow> hexValue (hexDigit k) = Some k"
  by (auto simp: hexValue_def hexDigit_def Let_def)

lemma hexValue_zero: "hexValue (CHR ''0'') = Some 0"
  by (simp add: hexValue_def)

lemma parseChars_quoteChar:
  assumes "parseChars t = Some (str, r)"
  shows "parseChars (quoteChar c @ t) = Some (c # str, r)"
proof -
  let ?n = "of_char c :: nat"
  have "?n mod 256 < 256" by simp
  then have lt: "?n < 256" by (simp only: of_char_mod_256)
  consider (b) "?n = 8" | (t) "?n = 9" | (n) "?n = 10" | (f) "?n = 12" | (r) "?n = 13"
    | (q) "?n = 34" | (bs) "?n = 92"
    | (ctl) "?n < 32" "?n \<noteq> 8" "?n \<noteq> 9" "?n \<noteq> 10" "?n \<noteq> 12" "?n \<noteq> 13"
    | (plain) "32 \<le> ?n" "?n \<noteq> 34" "?n \<noteq> 92"
    by linarith
  then show ?thesis
  proof cases
    case b
    then have "c = CHR 0x08" by (intro char_eqI) simp
    then show ?thesis using assms by (simp add: quoteChar_def readEscape_def)
  next
    case t
    then have "c = CHR 0x09" by (intro char_eqI) simp
    then show ?thesis using assms by (simp add: quoteChar_def readEscape_def)
  next
    case n
    then have "c = CHR 0x0A" by (intro char_eqI) simp
    then show ?thesis using assms by (simp add: quoteChar_def readEscape_def)
  next
    case f
    then have "c = CHR 0x0C" by (intro char_eqI) simp
    then show ?thesis using assms by (simp add: quoteChar_def readEscape_def)
  next
    case r
    then have "c = CHR 0x0D" by (intro char_eqI) simp
    then show ?thesis using assms by (simp add: quoteChar_def readEscape_def)
  next
    case q
    then have "c = CHR 0x22" by (intro char_eqI) simp
    then show ?thesis using assms by (simp add: quoteChar_def readEscape_def)
  next
    case bs
    then have "c = CHR 0x5C" by (intro char_eqI) simp
    then show ?thesis using assms by (simp add: quoteChar_def readEscape_def)
  next
    case ctl
    have q: "quoteChar c =
               [CHR 0x5C, CHR ''u'', CHR ''0'', CHR ''0'', hexDigit (?n div 16), hexDigit (?n mod 16)]"
      using ctl by (simp add: quoteChar_def Let_def)
    have h1: "hexValue (hexDigit (?n div 16)) = Some (?n div 16)"
      using ctl by (intro hexValue_hexDigit) simp
    have h2: "hexValue (hexDigit (?n mod 16)) = Some (?n mod 16)"
      by (intro hexValue_hexDigit) simp
    have c: "char_of (?n div 16 * 16 + ?n mod 16) = c"
      by simp
    have "readEscape (CHR ''u'' # CHR ''0'' # CHR ''0'' # hexDigit (?n div 16) # hexDigit (?n mod 16) # t)
            = Some (c, t)"
      using lt by (simp add: readEscape_def hexValue_zero h1 h2 Let_def)
    then show ?thesis using assms by (simp add: q)
  next
    case plain
    then have "c \<noteq> CHR 0x22" "c \<noteq> CHR 0x5C" by auto
    with plain assms show ?thesis by (simp add: quoteChar_def Let_def)
  qed
qed

lemma parseChars_quoted:
  "parseChars (concat (map quoteChar s) @ CHR 0x22 # rest) = Some (s, rest)"
  by (induction s) (simp_all add: parseChars_quoteChar)

lemma skipWs_quote [simp]: "skipWs (CHR 0x22 # s) = CHR 0x22 # s"
  by (simp add: skipWs_def isJsonWhiteSpace_def)

lemma skipWs_punct [simp]:
  "skipWs (CHR '':'' # s) = CHR '':'' # s"
  "skipWs (CHR '','' # s) = CHR '','' # s"
  "skipWs (CHR '']'' # s) = CHR '']'' # s"
  "skipWs (CHR ''}'' # s) = CHR ''}'' # s"
  "skipWs (CHR ''['' # s) = CHR ''['' # s"
  "skipWs (CHR ''{'' # s) = CHR ''{'' # s"
  by (simp_all add: skipWs_def isJsonWhiteSpace_def)

lemma parseChars_quoteJSONString:
  "parseChars (tl (quoteJSONString s) @ rest) = Some (s, rest)"
  using parseChars_quoted [of s rest] by (simp add: quoteJSONString_def)

lemma quoteJSONString_Cons: "quoteJSONString s = CHR 0x22 # tl (quoteJSONString s)"
  by (simp add: quoteJSONString_def)

lemma parseValue_string:
  "parseValue (Suc n) (quoteJSONString s @ rest) = Some (JString s, rest)"
proof -
  have "parseValue (Suc n) (CHR 0x22 # tl (quoteJSONString s) @ rest) = Some (JString s, rest)"
    by (subst parseValue.simps(2))
       (simp add: parseChars_quoteJSONString del: parseValue.simps parseElements.simps
          parseMembers.simps)
  then show ?thesis
    using quoteJSONString_Cons [of s] by (metis append_Cons)
qed

lemma parseMembers_more:
  "parseMembers (Suc (Suc n)) (quoteJSONString k @ CHR '':'' # quoteJSONString v @ CHR '','' # t) =
     (case parseMembers (Suc n) t of
        None \<Rightarrow> None
      | Some (kvs, r) \<Rightarrow> Some ((k, JString v) # kvs, r))"
proof -
  have "parseMembers (Suc (Suc n))
          (CHR 0x22 # tl (quoteJSONString k) @ CHR '':'' # quoteJSONString v @ CHR '','' # t) =
        (case parseMembers (Suc n) t of
           None \<Rightarrow> None
         | Some (kvs, r) \<Rightarrow> Some ((k, JString v) # kvs, r))"
    by (subst parseMembers.simps(2))
       (simp add: parseChars_quoteJSONString parseValue_string
          del: parseValue.simps parseMembers.simps)
  then show ?thesis
    using quoteJSONString_Cons [of k] by (metis append_Cons)
qed

lemma parseMembers_last:
  "parseMembers (Suc (Suc n)) (quoteJSONString k @ CHR '':'' # quoteJSONString v @ CHR ''}'' # t) =
     Some ([(k, JString v)], t)"
proof -
  have "parseMembers (Suc (Suc n))
          (CHR 0x22 # tl (quoteJSONString k) @ CHR '':'' # quoteJSONString v @ CHR ''}'' # t) =
        Some ([(k, JString v)], t)"
    by (subst parseMembers.simps(2))
       (simp add: parseChars_quoteJSONString parseValue_string
          del: parseValue.simps parseMembers.simps)
  then show ?thesis
    using quoteJSONString_Cons [of k] by (metis append_Cons)
qed

lemma parseValue_object_open:
  "parseValue (Suc n) (CHR ''{'' # quoteJSONString k @ t) =
     (case parseMembers n (quoteJSONString k @ t) of
        None \<Rightarrow> None
      | Some (kvs, r') \<Rightarrow> Some (JObject kvs, r'))"
  unfolding quoteJSONString_def
  by (subst parseValue.simps(2))
     (simp del: parseValue.simps parseElements.simps parseMembers.simps)

lemma parseValue_array_open:
  "parseValue (Suc n) (CHR ''['' # CHR ''{'' # t) =
     (case parseElements n (CHR ''{'' # t) of
        None \<Rightarrow> None
      | Some (xs, r') \<Rightarrow> Some (JArray xs, r'))"
  by (subst parseValue.simps(2))
     (simp del: parseValue.simps parseElements.simps parseMembers.simps)

lemma parseValue_array_empty:
  "parseValue (Suc n) (CHR ''['' # CHR '']'' # t) = Some (JArray [], t)"
  by (subst parseValue.simps(2))
     (simp del: parseValue.simps parseElements.simps parseMembers.simps)

lemma stringify_event:
  "JSON_stringify (eventToJson e) =
     CHR ''{'' # quoteJSONString ''date'' @ CHR '':'' # quoteJSONString (date e) @
     CHR '','' # quoteJSONString ''title'' @ CHR '':'' # quoteJSONString (title e) @
     CHR '','' # quoteJSONString ''description'' @ CHR '':'' # quoteJSONString (description e) @
     CHR '','' # quoteJSONString ''color'' @ CHR '':'' # quoteJSONString (color e) @
     CHR '','' # quoteJSONString ''id'' @ CHR '':'' # quoteJSONString (id' e) @ ''}''"
  by (simp add: eventToJson_def)

lemma parseValue_event:
  "parseValue (Suc (Suc (Suc (Suc (Suc (Suc (Suc n))))))) (JSON_stringify (eventToJson e) @ rest) =
     Some (eventToJson e, rest)"
  by (simp add: stringify_event parseValue_object_open parseMembers_more parseMembers_last
        eventToJson_def
        del: parseValue.simps parseElements.simps parseMembers.simps)

lemma parseValue_event_fuel:
  assumes "7 \<le> m"
  shows "parseValue m (JSON_stringify (eventToJson e) @ rest) = Some (eventToJson e, rest)"
proof -
  have "m = Suc (Suc (Suc (Suc (Suc (Suc (Suc (m - 7)))))))"
    using assms by simp
  then obtain n where "m = Suc (Suc (Suc (Suc (Suc (Suc (Suc n))))))" ..
  then show ?thesis by (simp only: parseValue_event)
qed

lemma join_Cons: "ys \<noteq> [] \<Longrightarrow> join sep (x # ys) = x @ sep @ join sep ys"
  by (cases ys) simp_all

lemma stringify_event_Cons:
  "JSON_stringify (eventToJson e) = CHR ''{'' # tl (JSON_stringify (eventToJson e))"
  by (simp add: stringify_event)

lemma parseElements_events:
  assumes "xs \<noteq> []" and "length xs + 7 \<le> m"
  shows "parseElements m (join '','' (map (JSON_stringify \<circ> eventToJson) xs) @ CHR '']'' # rest) =
           Some (map eventToJson xs, rest)"
  using assms
proof (induction xs arbitrary: m rule: list_nonempty_induct)
  case (single x)
  then obtain m' where m: "m = Suc m'" and m': "7 \<le> m'"
    by (cases m) simp_all
  show ?case
    unfolding m
    by (subst parseElements.simps(2))
       (simp add: parseValue_event_fuel [OF m']
          del: parseValue.simps parseElements.simps parseMembers.simps)
next
  case (cons x xs)
  then obtain m' where m: "m = Suc m'" and m': "length xs + 7 \<le> m'"
    by (cases m) simp_all
  then have m7: "7 \<le> m'" by simp
  have j: "join '','' (map (JSON_stringify \<circ> eventToJson) (x # xs)) =
             JSON_stringify (eventToJson x) @ CHR '','' #
               join '','' (map (JSON_stringify \<circ> eventToJson) xs)"
    using cons.hyps by (simp add: join_Cons)
  show ?case
    unfolding m j
    by (subst parseElements.simps(2))
       (simp add: parseValue_event_fuel [OF m7] cons.IH [OF m']
          del: parseValue.simps parseElements.simps parseMembers.simps)
qed

lemma parseValue_events:
  assumes "xs \<noteq> []" and "length xs + 8 \<le> m"
  shows "parseValue m (JSON_stringify (eventsToJson xs)) = Some (eventsToJson xs, [])"
proof -
  from assms obtain m' where m: "m = Suc m'" and m': "length xs + 7 \<le> m'"
    by (cases m) simp_all
  from assms(1) obtain x ys where xs: "xs = x # ys" by (cases xs) auto
  let ?body = "join '','' (map (JSON_stringify \<circ> eventToJson) xs)"
  have b: "?body @ '']'' = CHR ''{'' # tl (?body @ '']'')"
    using stringify_event_Cons [of x]
    by (cases ys) (simp_all add: xs, (metis append_Cons list.sel(3))+)
  have "parseValue (Suc m') (CHR ''['' # CHR ''{'' # tl (?body @ '']'')) =
          (case parseElements m' (CHR ''{'' # tl (?body @ '']'')) of
             None \<Rightarrow> None
           | Some (ys, r') \<Rightarrow> Some (JArray ys, r'))"
    by (rule parseValue_array_open)
  also have "CHR ''{'' # tl (?body @ '']'') = ?body @ CHR '']'' # []"
    using b by simp
  also have "parseElements m' (?body @ CHR '']'' # []) = Some (map eventToJson xs, [])"
    by (rule parseElements_events [OF assms(1) m'])
  finally show ?thesis
    by (simp add: m eventsToJson_def comp_def del: parseValue.simps)
qed

lemma length_join_lower:
  "(\<And>y. y \<in> set ys \<Longrightarrow> k \<le> length y) \<Longrightarrow> k * length ys \<le> length (join sep ys)"
proof (induction sep ys rule: join.induct)
  case (1 sep)
  then show ?case by simp
next
  case (2 sep x)
  then show ?case by simp
next
  case (3 sep x y ys)
  have "k \<le> length x" using "3.prems" by simp
  moreover have "k * length (y # ys) \<le> length (join sep (y # ys))"
    using "3.prems" by (intro "3.IH") simp
  ultimately show ?case by simp
qed

lemma length_stringify_events:
  "3 * length xs + 2 \<le> length (JSON_stringify (eventsToJson xs))"
proof -
  have "3 * length (map (JSON_stringify \<circ> eventToJson) xs)
          \<le> length (join '','' (map (JSON_stringify \<circ> eventToJson) xs))"
    by (rule length_join_lower) (auto simp: stringify_event)
  then show ?thesis by (simp add: eventsToJson_def)
qed

lemma JSON_parse_stringify_events:
  "JSON_parse (JSON_stringify (eventsToJson xs)) = Some (eventsToJson xs)"
proof (cases "xs = []")
  case True
  have "parseValue (Suc 5) (CHR ''['' # CHR '']'' # []) = Some (JArray [], [])"
    by (rule parseValue_array_empty)
  then show ?thesis
    using True by (simp add: JSON_parse_def eventsToJson_def skipWs_def del: parseValue.simps)
next
  case False
  then have "1 \<le> length xs" by (cases xs) simp_all
  with length_stringify_events [of xs]
  have "length xs + 8 \<le> 2 * length (JSON_stringify (eventsToJson xs)) + 2" by linarith
  from parseValue_events [OF False this] show ?thesis
    by (simp add: JSON_parse_def skipWs_def)
qed

lemma jsonToEvent_eventToJson: "jsonToEvent (eventToJson e) = Some e"
  by (simp add: jsonToEvent_def eventToJson_def)

lemma jsonToEvents_eventsToJson: "jsonToEvents (eventsToJson xs) = Some xs"
proof -
  have "those (map jsonToEvent (map eventToJson xs)) = Some xs"
    by (induction xs) (simp_all add: jsonToEvent_eventToJson)
  then show ?thesis by (simp add: jsonToEvents_def eventsToJson_def)
qed

lemma stringify_events_not_empty: "JSON_stringify (eventsToJson xs) \<noteq> []"
  by (simp add: eventsToJson_def)

text \<open>
  Claim C8. For every list of events, loading what the save effect stored gives back
  exactly that list: \<open>JSON.parse\<close> of \<open>JSON.stringify\<close> of the events is the serialised value
  again, and reading it as events returns the list, so the load effect of a component
  whose storage holds the saved text sets \<open>events\<close> to the saved list. With no entry under
  the key, the load effect changes nothing and the events of the freshly mounted component
  are the empty list.
\<close>

theorem loadEffect_saveEffect:
  "loadEffect (t\<lparr>localStorage := localStorage (saveEffect s)\<rparr>)
     = Inr (t\<lparr>localStorage := localStorage (saveEffect s), events := events s\<rparr>)
   \<and> JSON_parse (JSON_stringify (eventsToJson evs)) = Some (eventsToJson evs)
   \<and> jsonToEvents (eventsToJson evs) = Some evs
   \<and> loadEffect (initialState now (storage(''calendar-events'' := None)))
       = Inr (initialState now (storage(''calendar-events'' := None)))
   \<and> events (initialState now (storage(''calendar-events'' := None))) = []"
proof -
  have a: "loadEffect (t\<lparr>localStorage := localStorage (saveEffect s)\<rparr>)
             = Inr (t\<lparr>localStorage := localStorage (saveEffect s), events := events s\<rparr>)"
    by (simp add: loadEffect_def saveEffect_def stringify_events_not_empty
          JSON_parse_stringify_events jsonToEvents_eventsToJson)
  have b: "loadEffect (initialState now (storage(''calendar-events'' := None)))
             = Inr (initialState now (storage(''calendar-events'' := None)))"
    by (simp add: loadEffect_def initialState_def)
  have c: "events (initialState now (storage(''calendar-events'' := None))) = []"
    by (simp add: initialState_def)
  show ?thesis
    by (intro conjI a JSON_parse_stringify_events jsonToEvents_eventsToJson b c)
qed


subsection \<open>Identifiers\<close>







end
